theory Spec2Isabelle
  imports Complex_Main "HOL-Library.Word"
begin

section \<open>The live audio session of AudioLab.tsx\<close>

text \<open>
  The component keeps its session in React refs (\<open>sessionRef\<close>, \<open>streamRef\<close>, ...) and in
  two pieces of React state (\<open>liveConnected\<close>, \<open>logs\<close>). Browser and SDK objects are
  identified by handles; \<open>fresh\<close> is the handle that the next object created will have.
  Every call the component makes on such an object is recorded, in program order, in
  \<open>trace\<close>. A call may throw (a promise that is awaited may reject): which calls do is
  the parameter \<open>throws\<close> of the model. Property assignments and listener registrations
  are not recorded; the \<open>ended\<close> listener of a buffer source is the function \<open>onended\<close>.
  State updates of React (\<open>setLiveConnected\<close>, \<open>setLogs\<close>) take effect at once.
\<close>

type_synonym handle = nat

datatype effect =
    ConsoleError
  | NewClient
  | NewAudioContext handle nat
  | CreateGain handle handle
  | ConnectDestination handle handle
  | GetUserMedia handle
  | LiveConnect handle
  | CreateMediaStreamSource handle handle handle
  | CreateScriptProcessor handle handle
  | ConnectNode handle handle
  | CreateBufferSource handle handle
  | BufferSourceStart handle real
  | BufferSourceStop handle
  | SessionClose handle
  | TracksStop handle
  | NodeDisconnect handle
  | ContextClose handle
  | Alert

datatype error = Thrown effect | TypeError

record live =
  sessionRef :: "handle option"
  inputContextRef :: "handle option"
  outputContextRef :: "handle option"
  streamRef :: "handle option"
  processorRef :: "handle option"
  sourceRef :: "handle option"
  nextStartTimeRef :: real
  sourcesRef :: "handle list"
  liveConnected :: bool
  logs :: "string list"
  trace :: "effect list"
  fresh :: handle

text \<open>
  A handler either returns, leaving a state, or throws, leaving the state it had reached
  when the exception left it.
\<close>

type_synonym outcome = "(error \<times> live) + live"

definition initial :: live where
  "initial = \<lparr> sessionRef = None, inputContextRef = None, outputContextRef = None,
     streamRef = None, processorRef = None, sourceRef = None, nextStartTimeRef = 0,
     sourcesRef = [], liveConnected = False, logs = [], trace = [], fresh = 0 \<rparr>"

definition call :: "(effect \<Rightarrow> bool) \<Rightarrow> effect \<Rightarrow> live \<Rightarrow> outcome" where
  "call throws e s =
     (if throws e then Inl (Thrown e, s) else Inr (s\<lparr>trace := trace s @ [e]\<rparr>))"

text \<open>Statements in sequence: the first one that throws ends the sequence.\<close>

fun steps :: "(live \<Rightarrow> outcome) list \<Rightarrow> live \<Rightarrow> outcome" where
  "steps [] s = Inr s"
| "steps (f # fs) s = (case f s of Inl e \<Rightarrow> Inl e | Inr s' \<Rightarrow> steps fs s')"

definition setLogs :: "string \<Rightarrow> live \<Rightarrow> live" where
  "setLogs l s = s\<lparr>logs := logs s @ [l]\<rparr>"

subsection \<open>stopLiveSession\<close>

text \<open>
  The function is a sequence of guarded releases, each of the form
  \<open>if (ref.current) { ref.current.release(); ref.current = null; }\<close>, for \<open>sessionRef\<close>
  (\<open>close\<close>), \<open>streamRef\<close> (\<open>getTracks().forEach(t => t.stop())\<close>), \<open>processorRef\<close>
  and \<open>sourceRef\<close> (\<open>disconnect\<close>), \<open>inputContextRef\<close> and \<open>outputContextRef\<close>
  (\<open>close\<close>), followed by the stopping and clearing of the active buffer sources and by
  the two state updates. There is no \<open>try\<close> in it.
\<close>

definition closeSession :: "(effect \<Rightarrow> bool) \<Rightarrow> live \<Rightarrow> outcome" where
  "closeSession throws s =
     (case sessionRef s of None \<Rightarrow> Inr s
      | Some h \<Rightarrow> steps [call throws (SessionClose h), \<lambda>s. Inr (s\<lparr>sessionRef := None\<rparr>)] s)"

definition stopStream :: "(effect \<Rightarrow> bool) \<Rightarrow> live \<Rightarrow> outcome" where
  "stopStream throws s =
     (case streamRef s of None \<Rightarrow> Inr s
      | Some h \<Rightarrow> steps [call throws (TracksStop h), \<lambda>s. Inr (s\<lparr>streamRef := None\<rparr>)] s)"

definition disconnectProcessor :: "(effect \<Rightarrow> bool) \<Rightarrow> live \<Rightarrow> outcome" where
  "disconnectProcessor throws s =
     (case processorRef s of None \<Rightarrow> Inr s
      | Some h \<Rightarrow> steps [call throws (NodeDisconnect h), \<lambda>s. Inr (s\<lparr>processorRef := None\<rparr>)] s)"

definition disconnectSource :: "(effect \<Rightarrow> bool) \<Rightarrow> live \<Rightarrow> outcome" where
  "disconnectSource throws s =
     (case sourceRef s of None \<Rightarrow> Inr s
      | Some h \<Rightarrow> steps [call throws (NodeDisconnect h), \<lambda>s. Inr (s\<lparr>sourceRef := None\<rparr>)] s)"

definition closeInputContext :: "(effect \<Rightarrow> bool) \<Rightarrow> live \<Rightarrow> outcome" where
  "closeInputContext throws s =
     (case inputContextRef s of None \<Rightarrow> Inr s
      | Some h \<Rightarrow> steps [call throws (ContextClose h), \<lambda>s. Inr (s\<lparr>inputContextRef := None\<rparr>)] s)"

definition closeOutputContext :: "(effect \<Rightarrow> bool) \<Rightarrow> live \<Rightarrow> outcome" where
  "closeOutputContext throws s =
     (case outputContextRef s of None \<Rightarrow> Inr s
      | Some h \<Rightarrow> steps [call throws (ContextClose h), \<lambda>s. Inr (s\<lparr>outputContextRef := None\<rparr>)] s)"

text \<open>\<open>sourcesRef.current.forEach(s => s.stop()); sourcesRef.current.clear()\<close>\<close>

definition stopSources :: "(effect \<Rightarrow> bool) \<Rightarrow> live \<Rightarrow> outcome" where
  "stopSources throws s =
     steps (map (\<lambda>h. call throws (BufferSourceStop h)) (sourcesRef s)
            @ [\<lambda>s. Inr (s\<lparr>sourcesRef := []\<rparr>)]) s"

definition stopLiveSession :: "(effect \<Rightarrow> bool) \<Rightarrow> live \<Rightarrow> outcome" where
  "stopLiveSession throws =
     steps [closeSession throws, stopStream throws, disconnectProcessor throws,
            disconnectSource throws, closeInputContext throws, closeOutputContext throws,
            stopSources throws,
            \<lambda>s. Inr (setLogs ''Session ended.'' (s\<lparr>liveConnected := False\<rparr>))]"

subsection \<open>startLiveSession and the transport callbacks\<close>

text \<open>
  \<open>getGeminiClient\<close> reports a missing API key on the console and constructs the client
  all the same. \<open>apiKey\<close> says whether \<open>process.env.API_KEY\<close> is set.
\<close>

definition getGeminiClient :: "(effect \<Rightarrow> bool) \<Rightarrow> bool \<Rightarrow> live \<Rightarrow> outcome" where
  "getGeminiClient throws apiKey =
     steps ((if apiKey then [] else [call throws ConsoleError]) @ [call throws NewClient])"

definition newInputContext :: "(effect \<Rightarrow> bool) \<Rightarrow> live \<Rightarrow> outcome" where
  "newInputContext throws s =
     steps [call throws (NewAudioContext (fresh s) 16000),
            \<lambda>s. Inr (s\<lparr>inputContextRef := Some (fresh s), fresh := Suc (fresh s)\<rparr>)] s"

definition newOutputContext :: "(effect \<Rightarrow> bool) \<Rightarrow> live \<Rightarrow> outcome" where
  "newOutputContext throws s =
     steps [call throws (NewAudioContext (fresh s) 24000),
            \<lambda>s. Inr (s\<lparr>outputContextRef := Some (fresh s), fresh := Suc (fresh s)\<rparr>)] s"

text \<open>
  \<open>outputContextRef.current.createGain()\<close> and the connection of the gain node to the
  context's destination. The gain node is the local constant \<open>outputNode\<close> that the
  \<open>onmessage\<close> callback of this session closes over: its handle is the value of
  \<open>fresh\<close> at this point.
\<close>

definition createOutputNode :: "(effect \<Rightarrow> bool) \<Rightarrow> live \<Rightarrow> outcome" where
  "createOutputNode throws s =
     (case outputContextRef s of None \<Rightarrow> Inl (TypeError, s)
      | Some ctx \<Rightarrow>
          steps [call throws (CreateGain ctx (fresh s)),
                 call throws (ConnectDestination (fresh s) ctx),
                 \<lambda>s. Inr (s\<lparr>fresh := Suc (fresh s)\<rparr>)] s)"

definition getUserMedia :: "(effect \<Rightarrow> bool) \<Rightarrow> live \<Rightarrow> outcome" where
  "getUserMedia throws s =
     steps [call throws (GetUserMedia (fresh s)),
            \<lambda>s. Inr (s\<lparr>streamRef := Some (fresh s), fresh := Suc (fresh s)\<rparr>)] s"

definition liveConnect :: "(effect \<Rightarrow> bool) \<Rightarrow> live \<Rightarrow> outcome" where
  "liveConnect throws s =
     steps [call throws (LiveConnect (fresh s)),
            \<lambda>s. Inr (s\<lparr>sessionRef := Some (fresh s), fresh := Suc (fresh s)\<rparr>)] s"

text \<open>
  The body of the \<open>try\<close> block, and the function with its \<open>catch\<close>. The function awaits
  the microphone and the transport; a rejection of either is the throw of the
  corresponding call. The \<open>catch\<close> reads \<open>e.message\<close> for the alert: when the value
  thrown is \<open>null\<close> or \<open>undefined\<close> (\<open>nullish\<close> says for which calls it is) that read
  is itself a TypeError, which leaves the function before the alert and before
  \<open>setLiveConnected(false)\<close>. Otherwise the failure is reported by \<open>alert\<close>,
  \<open>liveConnected\<close> is set to false and the function returns.
\<close>

definition startBody :: "(effect \<Rightarrow> bool) \<Rightarrow> bool \<Rightarrow> live \<Rightarrow> outcome" where
  "startBody throws apiKey =
     steps [\<lambda>s. Inr (setLogs ''Connecting...'' s),
            getGeminiClient throws apiKey,
            newInputContext throws,
            newOutputContext throws,
            createOutputNode throws,
            getUserMedia throws,
            liveConnect throws]"

definition noMessage :: "(effect \<Rightarrow> bool) \<Rightarrow> error \<Rightarrow> bool" where
  "noMessage nullish e = (case e of Thrown x \<Rightarrow> nullish x | TypeError \<Rightarrow> False)"

definition startLiveSession ::
  "(effect \<Rightarrow> bool) \<Rightarrow> (effect \<Rightarrow> bool) \<Rightarrow> bool \<Rightarrow> live \<Rightarrow> outcome" where
  "startLiveSession throws nullish apiKey s =
     (case startBody throws apiKey s of
        Inr s' \<Rightarrow> Inr s'
      | Inl (e, s') \<Rightarrow>
          if noMessage nullish e then Inl (TypeError, s')
          else Inr (s'\<lparr>trace := trace s' @ [Alert], liveConnected := False\<rparr>))"

text \<open>
  The \<open>onopen\<close> callback. The SDK calls it when the transport opens, which is before the
  promise awaited by \<open>startLiveSession\<close> resolves; the two touch different refs.
\<close>

definition onopen :: "(effect \<Rightarrow> bool) \<Rightarrow> live \<Rightarrow> outcome" where
  "onopen throws s =
     (let s1 = (setLogs ''Connected! Start speaking.'' s)\<lparr>liveConnected := True\<rparr> in
      case (inputContextRef s1, streamRef s1) of
        (Some ictx, Some stream) \<Rightarrow>
          steps [call throws (CreateMediaStreamSource ictx stream (fresh s1)),
                 \<lambda>s. Inr (s\<lparr>sourceRef := Some (fresh s), fresh := Suc (fresh s)\<rparr>),
                 \<lambda>s. call throws (CreateScriptProcessor ictx (fresh s)) s,
                 \<lambda>s. Inr (s\<lparr>processorRef := Some (fresh s), fresh := Suc (fresh s)\<rparr>),
                 \<lambda>s. (case (sourceRef s, processorRef s) of
                         (Some src, Some proc) \<Rightarrow>
                            steps [call throws (ConnectNode src proc),
                                   call throws (ConnectDestination proc ictx)] s
                       | _ \<Rightarrow> Inl (TypeError, s))] s1
      | _ \<Rightarrow> Inr s1)"

definition onclose :: "live \<Rightarrow> live" where
  "onclose s = (setLogs ''Connection closed.'' s)\<lparr>liveConnected := False\<rparr>"

definition onerror :: "(effect \<Rightarrow> bool) \<Rightarrow> live \<Rightarrow> outcome" where
  "onerror throws = steps [call throws ConsoleError, \<lambda>s. Inr (setLogs ''Error occurred.'' s)]"

subsection \<open>Inbound messages\<close>

text \<open>
  \<open>LiveServerMessage\<close> of the SDK, as far as the handler reads it. Every field the handler
  reads is optional in the SDK's declarations.
\<close>

record blob =
  blobData :: "string option"

record part =
  inlineData :: "blob option"

record content =
  parts :: "part list option"

record liveServerContent =
  modelTurn :: "content option"
  interrupted :: "bool option"

record liveServerMessage =
  serverContent :: "liveServerContent option"

text \<open>
  \<open>msg.serverContent?.modelTurn?.parts[0]?.inlineData?.data\<close>: the chain is optional at
  every step but the index, so a model turn without \<open>parts\<close> is a TypeError. An index
  beyond the end of an array is \<open>undefined\<close>.
\<close>

definition base64Audio :: "liveServerMessage \<Rightarrow> error + string option" where
  "base64Audio msg =
     (case serverContent msg of None \<Rightarrow> Inr None
      | Some sc \<Rightarrow>
         (case modelTurn sc of None \<Rightarrow> Inr None
          | Some mt \<Rightarrow>
             (case parts mt of None \<Rightarrow> Inl TypeError
              | Some ps \<Rightarrow>
                 (case ps of [] \<Rightarrow> Inr None
                  | p # _ \<Rightarrow>
                     (case inlineData p of None \<Rightarrow> Inr None
                      | Some b \<Rightarrow> Inr (blobData b))))))"

text \<open>\<open>msg.serverContent?.interrupted\<close> as a condition.\<close>

definition isInterrupted :: "liveServerMessage \<Rightarrow> bool" where
  "isInterrupted msg =
     (case serverContent msg of None \<Rightarrow> False
      | Some sc \<Rightarrow> (case interrupted sc of None \<Rightarrow> False | Some b \<Rightarrow> b))"

text \<open>
  \<open>sourcesRef\<close> is a JavaScript \<open>Set\<close>: it keeps its members in insertion order, and
  adding a member leaves it as it is.
\<close>

definition setAdd :: "handle \<Rightarrow> handle list \<Rightarrow> handle list" where
  "setAdd h hs = (if h \<in> set hs then hs else hs @ [h])"

text \<open>
  The second \<open>if\<close> of \<open>onmessage\<close>, and its body.
\<close>

definition interrupt :: "(effect \<Rightarrow> bool) \<Rightarrow> live \<Rightarrow> outcome" where
  "interrupt throws s =
     steps ([\<lambda>s. Inr (setLogs ''Interrupted.'' s)]
            @ map (\<lambda>h. call throws (BufferSourceStop h)) (sourcesRef s)
            @ [\<lambda>s. Inr (s\<lparr>sourcesRef := [], nextStartTimeRef := 0\<rparr>)]) s"

definition interruptIf :: "(effect \<Rightarrow> bool) \<Rightarrow> liveServerMessage \<Rightarrow> live \<Rightarrow> outcome" where
  "interruptIf throws msg s = (if isInterrupted msg then interrupt throws s else Inr s)"

text \<open>
  \<open>onmessage\<close> is an \<open>async\<close> function with one \<open>await\<close>, on \<open>decodeAudioData\<close>, inside
  its first \<open>if\<close>. A call of it therefore runs in two parts, and other handlers can run
  between them.

  \<open>onmessageBegin\<close> is the part up to the \<open>await\<close>. \<open>now\<close> is \<open>ctx.currentTime\<close>. When
  the message carries audio (an empty string is falsy) and the output context is set, the
  cursor is raised to the clock and the handler is suspended; what it keeps for later is
  the context \<open>ctx\<close>, the payload and the message. Otherwise there is no \<open>await\<close>, and
  the handler goes on to the second \<open>if\<close> and ends.
\<close>

record suspended =
  susCtx :: handle
  susAudio :: string
  susMsg :: liveServerMessage

definition endMessage ::
  "(effect \<Rightarrow> bool) \<Rightarrow> liveServerMessage \<Rightarrow> live \<Rightarrow> (error \<times> live) + (suspended option \<times> live)"
where
  "endMessage throws msg s =
     (case interruptIf throws msg s of Inl e \<Rightarrow> Inl e | Inr s' \<Rightarrow> Inr (None, s'))"

definition onmessageBegin ::
  "(effect \<Rightarrow> bool) \<Rightarrow> real \<Rightarrow> liveServerMessage \<Rightarrow> live
     \<Rightarrow> (error \<times> live) + (suspended option \<times> live)"
where
  "onmessageBegin throws now msg s =
     (case base64Audio msg of
        Inl e \<Rightarrow> Inl (e, s)
      | Inr base64 \<Rightarrow>
          (case (base64, outputContextRef s) of
             (Some a, Some ctx) \<Rightarrow>
               (if a = [] then endMessage throws msg s
                else Inr (Some \<lparr> susCtx = ctx, susAudio = a, susMsg = msg \<rparr>,
                          s\<lparr>nextStartTimeRef := max (nextStartTimeRef s) now\<rparr>))
           | _ \<Rightarrow> endMessage throws msg s))"

text \<open>
  \<open>onmessageResume\<close> is the part after the \<open>await\<close>, run in the state that the component
  has when the decoding completes. \<open>decoded a\<close> is the number of sample frames of the
  buffer that \<open>decodeAudioData(decode(a), ctx, 24000, 1)\<close> resolves to, or the error that
  the decoding throws (both functions are imported from \<open>utils/audio\<close>); the duration of
  an audio buffer is its number of frames over its sample rate. \<open>outputNode\<close> is the gain
  node of the session. The buffer source is started at the value that the cursor has
  now, not at the value it had before the \<open>await\<close>. Times are real numbers; \<open>advance\<close> is the
  addition by which the code advances the cursor, an addition of doubles, of which the
  model fixes nothing: what is proved holds for every \<open>advance\<close>, or for every \<open>advance\<close> that
  does not decrease a time when a duration that is not negative is added, where this is
  said. (\<open>decode\<close> is called before the \<open>await\<close>; a throw of it changes no state and
  is taken together with a throw of the decoding.)
\<close>

definition onmessageResume ::
  "(effect \<Rightarrow> bool) \<Rightarrow> (real \<Rightarrow> real \<Rightarrow> real) \<Rightarrow> (string \<Rightarrow> error + nat) \<Rightarrow> handle
     \<Rightarrow> suspended \<Rightarrow> live \<Rightarrow> outcome"
where
  "onmessageResume throws advance decoded outputNode p s =
     (case decoded (susAudio p) of
        Inl e \<Rightarrow> Inl (e, s)
      | Inr n \<Rightarrow>
          steps [call throws (CreateBufferSource (susCtx p) (fresh s)),
                 call throws (ConnectNode (fresh s) outputNode),
                 call throws (BufferSourceStart (fresh s) (nextStartTimeRef s)),
                 \<lambda>s. Inr (s\<lparr>nextStartTimeRef := advance (nextStartTimeRef s) (real n / 24000),
                            sourcesRef := setAdd (fresh s) (sourcesRef s),
                            fresh := Suc (fresh s)\<rparr>),
                 interruptIf throws (susMsg p)] s)"

text \<open>
  \<open>onmessage\<close> is a call of the handler whose decoding completes before any other handler
  runs: the two parts one after the other.
\<close>

definition onmessage ::
  "(effect \<Rightarrow> bool) \<Rightarrow> (real \<Rightarrow> real \<Rightarrow> real) \<Rightarrow> (string \<Rightarrow> error + nat) \<Rightarrow> real \<Rightarrow> handle
     \<Rightarrow> liveServerMessage \<Rightarrow> live \<Rightarrow> outcome"
where
  "onmessage throws advance decoded now outputNode msg s =
     (case onmessageBegin throws now msg s of
        Inl e \<Rightarrow> Inl e
      | Inr (None, s') \<Rightarrow> Inr s'
      | Inr (Some p, s') \<Rightarrow> onmessageResume throws advance decoded outputNode p s')"

text \<open>The \<open>ended\<close> listener of a buffer source: \<open>sourcesRef.current.delete(source)\<close>.\<close>

definition onended :: "handle \<Rightarrow> live \<Rightarrow> live" where
  "onended h s = s\<lparr>sourcesRef := removeAll h (sourcesRef s)\<rparr>"

text \<open>
  What happens to an open session, one event at a time: a message arrives when the clock
  reads \<open>now\<close>; the decoding awaited by one of the suspended handlers completes (the
  handlers are numbered in the order in which they were suspended, and any of them may be
  the one); a buffer source ends. A handler that throws is a rejected promise: the state
  stays as the handler left it, and the session goes on.
\<close>

datatype event = Arrives real liveServerMessage | Completes nat | Ended handle

fun dispatch ::
  "(effect \<Rightarrow> bool) \<Rightarrow> (real \<Rightarrow> real \<Rightarrow> real) \<Rightarrow> (string \<Rightarrow> error + nat) \<Rightarrow> handle \<Rightarrow> event
     \<Rightarrow> live \<times> suspended list \<Rightarrow> live \<times> suspended list"
where
  "dispatch throws advance decoded outputNode (Arrives now msg) (s, ps) =
     (case onmessageBegin throws now msg s of
        Inl (e, s') \<Rightarrow> (s', ps)
      | Inr (None, s') \<Rightarrow> (s', ps)
      | Inr (Some p, s') \<Rightarrow> (s', ps @ [p]))"
| "dispatch throws advance decoded outputNode (Completes k) (s, ps) =
     (if k < length ps
      then (case onmessageResume throws advance decoded outputNode (ps ! k) s of
              Inl (e, s') \<Rightarrow> (s', take k ps @ drop (Suc k) ps)
            | Inr s' \<Rightarrow> (s', take k ps @ drop (Suc k) ps))
      else (s, ps))"
| "dispatch throws advance decoded outputNode (Ended h) (s, ps) = (onended h s, ps)"

fun run ::
  "(effect \<Rightarrow> bool) \<Rightarrow> (real \<Rightarrow> real \<Rightarrow> real) \<Rightarrow> (string \<Rightarrow> error + nat) \<Rightarrow> handle \<Rightarrow> event list
     \<Rightarrow> live \<times> suspended list \<Rightarrow> live \<times> suspended list"
where
  "run throws advance decoded outputNode [] c = c"
| "run throws advance decoded outputNode (e # es) c =
     run throws advance decoded outputNode es (dispatch throws advance decoded outputNode e c)"

section \<open>Notions used to state the properties\<close>

text \<open>The final state of a handler, whether it returned or threw.\<close>

definition final :: "outcome \<Rightarrow> live" where
  "final r = (case r of Inr s \<Rightarrow> s | Inl (e, s) \<Rightarrow> s)"

text \<open>The state in which the first part of a message handler leaves the component.\<close>

definition afterBegin :: "(error \<times> live) + (suspended option \<times> live) \<Rightarrow> live" where
  "afterBegin r = (case r of Inl (e, s) \<Rightarrow> s | Inr (p, s) \<Rightarrow> s)"

text \<open>The calls made between the states \<open>s\<close> and \<open>s'\<close>.\<close>

definition since :: "live \<Rightarrow> live \<Rightarrow> effect list" where
  "since s s' = drop (length (trace s)) (trace s')"

subsection \<open>Teardown\<close>

definition opt :: "'a option \<Rightarrow> ('a \<Rightarrow> effect) \<Rightarrow> effect list" where
  "opt r f = (case r of None \<Rightarrow> [] | Some h \<Rightarrow> [f h])"

text \<open>
  The release calls of a teardown in state \<open>s\<close>, in the order of the specification:
  (1) the transport handle, (2) the tracks of the capture stream, (3) the processing
  nodes, (4) the input and the output context, (5) the scheduled playback buffers.
\<close>

definition teardownPlan :: "live \<Rightarrow> effect list" where
  "teardownPlan s =
     opt (sessionRef s) SessionClose @ opt (streamRef s) TracksStop
     @ opt (processorRef s) NodeDisconnect @ opt (sourceRef s) NodeDisconnect
     @ opt (inputContextRef s) ContextClose @ opt (outputContextRef s) ContextClose
     @ map BufferSourceStop (sourcesRef s)"

text \<open>
  \<open>performs throws pl s r\<close>: the outcome \<open>r\<close> of a handler started in \<open>s\<close> made the
  calls \<open>pl\<close>, in this order, up to the first one that throws: if it returned it made all
  of them, if it threw it made those before the call that threw and none after it.
\<close>

definition performs :: "(effect \<Rightarrow> bool) \<Rightarrow> effect list \<Rightarrow> live \<Rightarrow> outcome \<Rightarrow> bool" where
  "performs throws pl s r =
     (case r of
        Inr s' \<Rightarrow> trace s' = trace s @ pl
      | Inl (e, s') \<Rightarrow>
          (let k = length (trace s') - length (trace s)
           in k < length pl \<and> trace s' = trace s @ take k pl
              \<and> e = Thrown (pl ! k) \<and> throws (pl ! k)))"



subsection \<open>Concrete runs\<close>

definition never :: "effect \<Rightarrow> bool" where
  "never e = False"


definition throwsOnly :: "effect \<Rightarrow> effect \<Rightarrow> bool" where
  "throwsOnly x e = (e = x)"

text \<open>A session that was started and whose transport has opened, nothing failing.\<close>

definition opened :: live where
  "opened = final (onopen never (final (startLiveSession never never True initial)))"


subsection \<open>Playback\<close>

text \<open>The start times of the buffers started by a sequence of calls.\<close>

fun startTimes :: "effect list \<Rightarrow> real list" where
  "startTimes [] = []"
| "startTimes (BufferSourceStart h t # es) = t # startTimes es"
| "startTimes (e # es) = startTimes es"

text \<open>
  The scheduler as the specification words it: with the cursor at \<open>next\<close>, a buffer of
  duration \<open>d\<close> arriving when the clock reads \<open>now\<close> starts at \<open>max next now\<close>, and the
  cursor advances to that start plus \<open>d\<close> (\<open>advance\<close> is the addition).
\<close>

fun schedule :: "(real \<Rightarrow> real \<Rightarrow> real) \<Rightarrow> real \<Rightarrow> (real \<times> real) list \<Rightarrow> real list" where
  "schedule advance next [] = []"
| "schedule advance next ((now, d) # xs) = max next now # schedule advance (advance (max next now) d) xs"

text \<open>
  A message that is an audio chunk and nothing else: it carries a non-empty inline
  payload that decodes, and no interruption flag. The value is the number of frames of the
  decoded buffer.
\<close>

definition audioChunk :: "(string \<Rightarrow> error + nat) \<Rightarrow> liveServerMessage \<Rightarrow> nat option" where
  "audioChunk decoded msg =
     (case base64Audio msg of
        Inr (Some a) \<Rightarrow>
          (if a \<noteq> [] \<and> \<not> isInterrupted msg
           then (case decoded a of Inr n \<Rightarrow> Some n | Inl e \<Rightarrow> None) else None)
      | _ \<Rightarrow> None)"

definition chunkDuration :: "(string \<Rightarrow> error + nat) \<Rightarrow> liveServerMessage \<Rightarrow> real" where
  "chunkDuration decoded msg =
     (case audioChunk decoded msg of Some n \<Rightarrow> real n / 24000 | None \<Rightarrow> 0)"

text \<open>
  Chunks handled one at a time: each arrives, at the clock reading given with it, and its
  decoding completes before the next one arrives.
\<close>

definition oneByOne :: "(real \<times> liveServerMessage) list \<Rightarrow> event list" where
  "oneByOne ms = concat (map (\<lambda>x. [Arrives (fst x) (snd x), Completes 0]) ms)"

text \<open>
  A run in which no interruption is handled: no message that arrives, and no suspended
  handler that is resumed, has the interruption flag.
\<close>

fun quietEvent :: "event \<Rightarrow> live \<times> suspended list \<Rightarrow> bool" where
  "quietEvent (Arrives now msg) c = (\<not> isInterrupted msg)"
| "quietEvent (Completes k) (s, ps) =
     (if k < length ps then \<not> isInterrupted (susMsg (ps ! k)) else True)"
| "quietEvent (Ended h) c = True"

fun quiet ::
  "(effect \<Rightarrow> bool) \<Rightarrow> (real \<Rightarrow> real \<Rightarrow> real) \<Rightarrow> (string \<Rightarrow> error + nat) \<Rightarrow> handle \<Rightarrow> event list
     \<Rightarrow> live \<times> suspended list \<Rightarrow> bool"
where
  "quiet throws advance decoded outputNode [] c = True"
| "quiet throws advance decoded outputNode (e # es) c =
     (quietEvent e c \<and> quiet throws advance decoded outputNode es (dispatch throws advance decoded outputNode e c))"

text \<open>
  The buffers started during a run, in the order in which they are started, each with its
  start time (read off the trace) and its duration (that of the buffer decoded for the
  handler that starts it).
\<close>

definition seconds :: "(string \<Rightarrow> error + nat) \<Rightarrow> suspended \<Rightarrow> real" where
  "seconds decoded p = (case decoded (susAudio p) of Inr n \<Rightarrow> real n / 24000 | Inl e \<Rightarrow> 0)"

definition startedBy ::
  "(effect \<Rightarrow> bool) \<Rightarrow> (real \<Rightarrow> real \<Rightarrow> real) \<Rightarrow> (string \<Rightarrow> error + nat) \<Rightarrow> handle \<Rightarrow> event
     \<Rightarrow> live \<times> suspended list \<Rightarrow> (real \<times> real) list"
where
  "startedBy throws advance decoded outputNode e c =
     (case e of
        Completes k \<Rightarrow>
          map (\<lambda>t. (t, seconds decoded (snd c ! k)))
            (startTimes (since (fst c) (fst (dispatch throws advance decoded outputNode e c))))
      | _ \<Rightarrow> [])"

fun playlist ::
  "(effect \<Rightarrow> bool) \<Rightarrow> (real \<Rightarrow> real \<Rightarrow> real) \<Rightarrow> (string \<Rightarrow> error + nat) \<Rightarrow> handle \<Rightarrow> event list
     \<Rightarrow> live \<times> suspended list \<Rightarrow> (real \<times> real) list"
where
  "playlist throws advance decoded outputNode [] c = []"
| "playlist throws advance decoded outputNode (e # es) c =
     startedBy throws advance decoded outputNode e c
     @ playlist throws advance decoded outputNode es (dispatch throws advance decoded outputNode e c)"

text \<open>
  What the properties below need of the addition of the cursor and a duration: a duration
  that is not negative does not move the cursor back. The addition of doubles has this
  property; nothing else about it is used.
\<close>

definition nondecreasing :: "(real \<Rightarrow> real \<Rightarrow> real) \<Rightarrow> bool" where
  "nondecreasing advance = (\<forall>x d. 0 \<le> d \<longrightarrow> x \<le> advance x d)"

text \<open>
  \<open>chain cur xs\<close>: the buffers \<open>xs\<close> (start and duration) follow one another from the
  cursor \<open>cur\<close> on: none starts before the cursor, and the cursor is then at its end.
\<close>

fun chain :: "(real \<Rightarrow> real \<Rightarrow> real) \<Rightarrow> real \<Rightarrow> (real \<times> real) list \<Rightarrow> bool" where
  "chain advance cur [] = True"
| "chain advance cur ((t, d) # xs) = (cur \<le> t \<and> 0 \<le> d \<and> chain advance (advance t d) xs)"

text \<open>The calls of the playback path.\<close>

fun isPlayback :: "effect \<Rightarrow> bool" where
  "isPlayback (CreateBufferSource c h) = True"
| "isPlayback (ConnectNode a b) = True"
| "isPlayback (BufferSourceStart h t) = True"
| "isPlayback (BufferSourceStop h) = True"
| "isPlayback e = False"

text \<open>
  \<open>playbackOnly s s'\<close>: from \<open>s\<close> to \<open>s'\<close> the session handle, the capture stream, the
  processing nodes, the two contexts and \<open>liveConnected\<close> are unchanged, and the calls made
  in between are calls of the playback path.
\<close>

definition playbackOnly :: "live \<Rightarrow> live \<Rightarrow> bool" where
  "playbackOnly s s' \<longleftrightarrow>
     sessionRef s' = sessionRef s \<and> streamRef s' = streamRef s
     \<and> processorRef s' = processorRef s \<and> sourceRef s' = sourceRef s
     \<and> inputContextRef s' = inputContextRef s \<and> outputContextRef s' = outputContextRef s
     \<and> liveConnected s' = liveConnected s
     \<and> take (length (trace s)) (trace s') = trace s
     \<and> list_all isPlayback (since s s')"

text \<open>
  For concrete runs: the exact addition, a decoder that gives half a second of audio per
  character, and messages. The second message carries audio and the interruption flag.
\<close>

definition exact :: "real \<Rightarrow> real \<Rightarrow> real" where
  "exact x d = x + d"

definition audioMsg :: "string \<Rightarrow> liveServerMessage" where
  "audioMsg a = \<lparr> serverContent = Some \<lparr> modelTurn = Some \<lparr> parts =
     Some [\<lparr> inlineData = Some \<lparr> blobData = Some a \<rparr> \<rparr>] \<rparr>, interrupted = None \<rparr> \<rparr>"



definition turnWithoutParts :: liveServerMessage where
  "turnWithoutParts =
     \<lparr> serverContent = Some \<lparr> modelTurn = Some \<lparr> parts = None \<rparr>, interrupted = None \<rparr> \<rparr>"

definition framesOf :: "string \<Rightarrow> error + nat" where
  "framesOf a = Inr (12000 * length a)"

text \<open>
  The opened session after a chunk of one second that arrived when the clock read 1 and
  was decoded at once; after an interruption handled when the clock read 5; and after a
  further chunk of half a second that arrived when the clock read 6.
\<close>

definition playing :: live where
  "playing = opened\<lparr>nextStartTimeRef := 2,
     trace := trace opened @ [CreateBufferSource 1 7, ConnectNode 7 2, BufferSourceStart 7 1],
     sourcesRef := [7], fresh := 8\<rparr>"





text \<open>
  Two chunks, of one second and of half a second, that arrive when the clock reads 1 and
  1.5, both before either is decoded; the decodings complete in the order of arrival, or
  in the opposite order.
\<close>

definition overlapping :: "event list" where
  "overlapping = [Arrives 1 (audioMsg ''ab''), Arrives (3 / 2) (audioMsg ''a''),
     Completes 0, Completes 0]"

definition outOfOrder :: "event list" where
  "outOfOrder = [Arrives 1 (audioMsg ''ab''), Arrives (3 / 2) (audioMsg ''a''),
     Completes 1, Completes 0]"


definition firstChunk :: suspended where
  "firstChunk = \<lparr> susCtx = 1, susAudio = ''ab'', susMsg = audioMsg ''ab'' \<rparr>"

definition overlapped :: live where
  "overlapped = opened\<lparr>nextStartTimeRef := 3,
     trace := trace opened @ [CreateBufferSource 1 7, ConnectNode 7 2, BufferSourceStart 7 (3 / 2),
               CreateBufferSource 1 8, ConnectNode 8 2, BufferSourceStart 8 (5 / 2)],
     sourcesRef := [7, 8], fresh := 9\<rparr>"

subsection \<open>Start\<close>

text \<open>
  The control that the component renders for the live session, and what a click on it
  runs: \<open>Start Conversation\<close> while \<open>liveConnected\<close> is false, \<open>End Session\<close> otherwise.
\<close>

datatype control = StartConversation | EndSession

definition liveControl :: "live \<Rightarrow> control" where
  "liveControl s = (if \<not> liveConnected s then StartConversation else EndSession)"

definition click :: "(effect \<Rightarrow> bool) \<Rightarrow> (effect \<Rightarrow> bool) \<Rightarrow> bool \<Rightarrow> live \<Rightarrow> outcome" where
  "click throws nullish apiKey s =
     (case liveControl s of
        StartConversation \<Rightarrow> startLiveSession throws nullish apiKey s
      | EndSession \<Rightarrow> stopLiveSession throws s)"

text \<open>
  A start in which the microphone is refused, and one in which the transport rejects the
  connection.
\<close>

definition micDenied :: live where
  "micDenied = initial\<lparr>inputContextRef := Some 0, outputContextRef := Some 1,
     logs := [''Connecting...''],
     trace := [NewClient, NewAudioContext 0 16000, NewAudioContext 1 24000, CreateGain 1 2,
               ConnectDestination 2 1, Alert],
     fresh := 3\<rparr>"

definition connectRejected :: live where
  "connectRejected = initial\<lparr>inputContextRef := Some 0, outputContextRef := Some 1,
     streamRef := Some 3, logs := [''Connecting...''],
     trace := [NewClient, NewAudioContext 0 16000, NewAudioContext 1 24000, CreateGain 1 2,
               ConnectDestination 2 1, GetUserMedia 3, Alert],
     fresh := 4\<rparr>"

text \<open>
  A start from the initial state, and a second start after it, before the transport has
  reported open.
\<close>

definition started :: live where
  "started = initial\<lparr>sessionRef := Some 4, inputContextRef := Some 0,
     outputContextRef := Some 1, streamRef := Some 3, logs := [''Connecting...''],
     trace := [NewClient, NewAudioContext 0 16000, NewAudioContext 1 24000, CreateGain 1 2,
               ConnectDestination 2 1, GetUserMedia 3, LiveConnect 4],
     fresh := 5\<rparr>"

definition startedTwice :: live where
  "startedTwice = started\<lparr>sessionRef := Some 9, inputContextRef := Some 5,
     outputContextRef := Some 6, streamRef := Some 8,
     logs := [''Connecting...'', ''Connecting...''],
     trace := trace started @ [NewClient, NewAudioContext 5 16000, NewAudioContext 6 24000,
               CreateGain 6 7, ConnectDestination 7 6, GetUserMedia 8, LiveConnect 9],
     fresh := 10\<rparr>"

text \<open>
  The opened session after the transport has closed (\<open>onclose\<close>), and a start on it.
\<close>

definition remoteClosed :: live where
  "remoteClosed = opened\<lparr>liveConnected := False,
     logs := logs opened @ [''Connection closed.'']\<rparr>"

definition restarted :: live where
  "restarted = remoteClosed\<lparr>sessionRef := Some 11, inputContextRef := Some 7,
     outputContextRef := Some 8, streamRef := Some 10,
     logs := logs remoteClosed @ [''Connecting...''],
     trace := trace opened @ [NewClient, NewAudioContext 7 16000, NewAudioContext 8 24000,
               CreateGain 8 9, ConnectDestination 9 8, GetUserMedia 10, LiveConnect 11],
     fresh := 12\<rparr>"

section \<open>PCM encoding and decoding\<close>

text \<open>
  Modelled from the spec: the module \<open>utils/audio\<close>, from which AudioLab.tsx imports
  \<open>createPcmBlob\<close>, \<open>decode\<close> and \<open>decodeAudioData\<close>, is not among the sources. The
  encoder and the decoder below follow sections 4.1 and 4.2 of the specification. Samples
  are real numbers; a wire payload is a sequence of bytes, two per sample, low byte first.
  The base64 text in which the payload travels is not modelled.
\<close>

type_synonym byte = "8 word"

type_synonym int16 = "16 word"

text \<open>
  Section 4.1: each sample is clamped to \<open>[-1, 1]\<close>, multiplied by 32767, rounded to the
  nearest integer and clamped to the range of a signed 16-bit integer.
\<close>

definition encodeSample :: "real \<Rightarrow> int16" where
  "encodeSample x =
     word_of_int (max (- 32768) (min 32767 (round (max (- 1) (min 1 x) * 32767))))"

definition int16Bytes :: "int16 \<Rightarrow> byte list" where
  "int16Bytes w = [ucast w, ucast (drop_bit 8 w)]"

definition createPcmBlob :: "real list \<Rightarrow> byte list" where
  "createPcmBlob xs = concat (map (\<lambda>x. int16Bytes (encodeSample x)) xs)"

text \<open>
  Section 4.2: the payload is read as little-endian signed 16-bit samples, a trailing odd
  byte is dropped, and each sample is divided by 32768. The buffer has the sample rate and
  the channel count that the caller asks for.
\<close>

fun int16Array :: "byte list \<Rightarrow> int16 list" where
  "int16Array (lo # hi # bs) = word_cat hi lo # int16Array bs"
| "int16Array bs = []"

definition decodeSample :: "int16 \<Rightarrow> real" where
  "decodeSample w = real_of_int (sint w) / 32768"

record audioBuffer =
  sampleRate :: nat
  numberOfChannels :: nat
  channelData :: "real list"

definition decodeAudioData :: "byte list \<Rightarrow> nat \<Rightarrow> nat \<Rightarrow> audioBuffer" where
  "decodeAudioData payload rate channels =
     \<lparr> sampleRate = rate, numberOfChannels = channels,
       channelData = map decodeSample (int16Array payload) \<rparr>"

text \<open>
  What the handler awaits, \<open>decodeAudioData(decode(a), ctx, 24000, 1)\<close>, as a function of
  the base64 decoder \<open>decode\<close>, of which the specification says nothing (it may throw): the
  number of frames of the buffer, for one channel the number of its samples. The decoder
  of section 4.2 adds no failure of its own.
\<close>

definition decodedBy :: "(string \<Rightarrow> error + byte list) \<Rightarrow> string \<Rightarrow> error + nat" where
  "decodedBy decode a =
     (case decode a of
        Inl e \<Rightarrow> Inl e
      | Inr payload \<Rightarrow> Inr (length (channelData (decodeAudioData payload 24000 1))))"

text \<open>A base64 decoder for a concrete run: every text decodes to the same three bytes.\<close>

definition threeBytes :: "string \<Rightarrow> error + byte list" where
  "threeBytes a = Inr [1, 2, 3]"

text \<open>The suspended handler of a chunk with the payload text \<open>AQID\<close>.\<close>

definition oddChunk :: suspended where
  "oddChunk = \<lparr> susCtx = 1, susAudio = ''AQID'', susMsg = audioMsg ''AQID'' \<rparr>"

section \<open>Teardown: order, failure, idempotence\<close>

lemma performs_cons:
  assumes "performs throws p1 s (f s)"
    and "\<And>s'. f s = Inr s' \<Longrightarrow> performs throws p2 s' (steps fs s')"
  shows "performs throws (p1 @ p2) s (steps (f # fs) s)"
proof (cases "f s")
  case (Inl a)
  then show ?thesis using assms(1)
    by (cases a) (auto simp: performs_def Let_def nth_append)
next
  case (Inr s')
  from assms(2)[OF Inr] assms(1) Inr show ?thesis
    by (auto simp: performs_def Let_def nth_append split: sum.splits prod.splits)
qed

lemma performs_call: "performs throws [e] s (call throws e s)"
  by (simp add: performs_def call_def)

lemma steps_app:
  "steps (fs @ gs) s = (case steps fs s of Inl e \<Rightarrow> Inl e | Inr s' \<Rightarrow> steps gs s')"
  by (induction fs arbitrary: s) (auto split: sum.splits)

lemma stopCalls:
  "performs throws (map BufferSourceStop hs) s
     (steps (map (\<lambda>h. call throws (BufferSourceStop h)) hs) s)"
proof (induction hs arbitrary: s)
  case Nil
  show ?case by (simp add: performs_def)
next
  case (Cons h hs)
  have "performs throws ([BufferSourceStop h] @ map BufferSourceStop hs) s
     (steps (call throws (BufferSourceStop h) # map (\<lambda>h. call throws (BufferSourceStop h)) hs) s)"
    by (rule performs_cons) (rule performs_call, rule Cons.IH)
  then show ?case by simp
qed


lemma closeSession_performs: "performs throws (opt (sessionRef s) SessionClose) s (closeSession throws s)"
  by (auto simp: closeSession_def opt_def performs_def call_def split: option.splits)

lemma closeSession_returns: "closeSession throws s = Inr s' \<Longrightarrow>
   s' = s\<lparr>trace := trace s @ opt (sessionRef s) SessionClose, sessionRef := None\<rparr>"
  by (auto simp: closeSession_def opt_def call_def split: option.splits if_splits)

lemma stopStream_performs: "performs throws (opt (streamRef s) TracksStop) s (stopStream throws s)"
  by (auto simp: stopStream_def opt_def performs_def call_def split: option.splits)

lemma stopStream_returns: "stopStream throws s = Inr s' \<Longrightarrow>
   s' = s\<lparr>trace := trace s @ opt (streamRef s) TracksStop, streamRef := None\<rparr>"
  by (auto simp: stopStream_def opt_def call_def split: option.splits if_splits)

lemma disconnectProcessor_performs: "performs throws (opt (processorRef s) NodeDisconnect) s (disconnectProcessor throws s)"
  by (auto simp: disconnectProcessor_def opt_def performs_def call_def split: option.splits)

lemma disconnectProcessor_returns: "disconnectProcessor throws s = Inr s' \<Longrightarrow>
   s' = s\<lparr>trace := trace s @ opt (processorRef s) NodeDisconnect, processorRef := None\<rparr>"
  by (auto simp: disconnectProcessor_def opt_def call_def split: option.splits if_splits)

lemma disconnectSource_performs: "performs throws (opt (sourceRef s) NodeDisconnect) s (disconnectSource throws s)"
  by (auto simp: disconnectSource_def opt_def performs_def call_def split: option.splits)

lemma disconnectSource_returns: "disconnectSource throws s = Inr s' \<Longrightarrow>
   s' = s\<lparr>trace := trace s @ opt (sourceRef s) NodeDisconnect, sourceRef := None\<rparr>"
  by (auto simp: disconnectSource_def opt_def call_def split: option.splits if_splits)

lemma closeInputContext_performs: "performs throws (opt (inputContextRef s) ContextClose) s (closeInputContext throws s)"
  by (auto simp: closeInputContext_def opt_def performs_def call_def split: option.splits)

lemma closeInputContext_returns: "closeInputContext throws s = Inr s' \<Longrightarrow>
   s' = s\<lparr>trace := trace s @ opt (inputContextRef s) ContextClose, inputContextRef := None\<rparr>"
  by (auto simp: closeInputContext_def opt_def call_def split: option.splits if_splits)

lemma closeOutputContext_performs: "performs throws (opt (outputContextRef s) ContextClose) s (closeOutputContext throws s)"
  by (auto simp: closeOutputContext_def opt_def performs_def call_def split: option.splits)

lemma closeOutputContext_returns: "closeOutputContext throws s = Inr s' \<Longrightarrow>
   s' = s\<lparr>trace := trace s @ opt (outputContextRef s) ContextClose, outputContextRef := None\<rparr>"
  by (auto simp: closeOutputContext_def opt_def call_def split: option.splits if_splits)

lemma stopSources_performs:
  "performs throws (map BufferSourceStop (sourcesRef s)) s (stopSources throws s)"
proof -
  have "performs throws (map BufferSourceStop (sourcesRef s) @ []) s
     (case steps (map (\<lambda>h. call throws (BufferSourceStop h)) (sourcesRef s)) s of
        Inl e \<Rightarrow> Inl e | Inr s' \<Rightarrow> steps [\<lambda>s. Inr (s\<lparr>sourcesRef := []\<rparr>)] s')"
    using stopCalls [of throws "sourcesRef s" s]
    by (auto simp: performs_def Let_def split: sum.splits prod.splits)
  then show ?thesis by (simp add: stopSources_def steps_app)
qed



lemma tail7: "performs throws (map BufferSourceStop (sourcesRef s)) s
    (steps [stopSources throws, \<lambda>s. Inr (setLogs ''Session ended.'' (s\<lparr>liveConnected := False\<rparr>))] s)"
proof -
  have "performs throws (map BufferSourceStop (sourcesRef s) @ []) s
    (steps [stopSources throws, \<lambda>s. Inr (setLogs ''Session ended.'' (s\<lparr>liveConnected := False\<rparr>))] s)"
  proof (rule performs_cons)
    show "performs throws (map BufferSourceStop (sourcesRef s)) s (stopSources throws s)"
      by (rule stopSources_performs)
  next
    fix s'
    show "performs throws [] s' (steps [\<lambda>s. Inr (setLogs ''Session ended.'' (s\<lparr>liveConnected := False\<rparr>))] s')"
      by (simp add: performs_def setLogs_def)
  qed
  then show ?thesis by simp
qed

lemma tail6: "performs throws (opt (outputContextRef s) ContextClose @ map BufferSourceStop (sourcesRef s)) s
    (steps [closeOutputContext throws, stopSources throws, \<lambda>s. Inr (setLogs ''Session ended.'' (s\<lparr>liveConnected := False\<rparr>))] s)"
proof (rule performs_cons)
  show "performs throws (opt (outputContextRef s) ContextClose) s (closeOutputContext throws s)"
    by (rule closeOutputContext_performs)
next
  fix s'
  assume "closeOutputContext throws s = Inr s'"
  then have "map BufferSourceStop (sourcesRef s') = map BufferSourceStop (sourcesRef s)"
    by (auto dest: closeOutputContext_returns)
  with tail7 [of throws s']
  show "performs throws (map BufferSourceStop (sourcesRef s)) s' (steps [stopSources throws, \<lambda>s. Inr (setLogs ''Session ended.'' (s\<lparr>liveConnected := False\<rparr>))] s')"
    by simp
qed

lemma tail5: "performs throws (opt (inputContextRef s) ContextClose @ opt (outputContextRef s) ContextClose @ map BufferSourceStop (sourcesRef s)) s
    (steps [closeInputContext throws, closeOutputContext throws, stopSources throws, \<lambda>s. Inr (setLogs ''Session ended.'' (s\<lparr>liveConnected := False\<rparr>))] s)"
proof (rule performs_cons)
  show "performs throws (opt (inputContextRef s) ContextClose) s (closeInputContext throws s)"
    by (rule closeInputContext_performs)
next
  fix s'
  assume "closeInputContext throws s = Inr s'"
  then have "opt (outputContextRef s') ContextClose @ map BufferSourceStop (sourcesRef s') = opt (outputContextRef s) ContextClose @ map BufferSourceStop (sourcesRef s)"
    by (auto dest: closeInputContext_returns)
  with tail6 [of throws s']
  show "performs throws (opt (outputContextRef s) ContextClose @ map BufferSourceStop (sourcesRef s)) s' (steps [closeOutputContext throws, stopSources throws, \<lambda>s. Inr (setLogs ''Session ended.'' (s\<lparr>liveConnected := False\<rparr>))] s')"
    by simp
qed

lemma tail4: "performs throws (opt (sourceRef s) NodeDisconnect @ opt (inputContextRef s) ContextClose @ opt (outputContextRef s) ContextClose @ map BufferSourceStop (sourcesRef s)) s
    (steps [disconnectSource throws, closeInputContext throws, closeOutputContext throws, stopSources throws, \<lambda>s. Inr (setLogs ''Session ended.'' (s\<lparr>liveConnected := False\<rparr>))] s)"
proof (rule performs_cons)
  show "performs throws (opt (sourceRef s) NodeDisconnect) s (disconnectSource throws s)"
    by (rule disconnectSource_performs)
next
  fix s'
  assume "disconnectSource throws s = Inr s'"
  then have "opt (inputContextRef s') ContextClose @ opt (outputContextRef s') ContextClose @ map BufferSourceStop (sourcesRef s') = opt (inputContextRef s) ContextClose @ opt (outputContextRef s) ContextClose @ map BufferSourceStop (sourcesRef s)"
    by (auto dest: disconnectSource_returns)
  with tail5 [of throws s']
  show "performs throws (opt (inputContextRef s) ContextClose @ opt (outputContextRef s) ContextClose @ map BufferSourceStop (sourcesRef s)) s' (steps [closeInputContext throws, closeOutputContext throws, stopSources throws, \<lambda>s. Inr (setLogs ''Session ended.'' (s\<lparr>liveConnected := False\<rparr>))] s')"
    by simp
qed

lemma tail3: "performs throws (opt (processorRef s) NodeDisconnect @ opt (sourceRef s) NodeDisconnect @ opt (inputContextRef s) ContextClose @ opt (outputContextRef s) ContextClose @ map BufferSourceStop (sourcesRef s)) s
    (steps [disconnectProcessor throws, disconnectSource throws, closeInputContext throws, closeOutputContext throws, stopSources throws, \<lambda>s. Inr (setLogs ''Session ended.'' (s\<lparr>liveConnected := False\<rparr>))] s)"
proof (rule performs_cons)
  show "performs throws (opt (processorRef s) NodeDisconnect) s (disconnectProcessor throws s)"
    by (rule disconnectProcessor_performs)
next
  fix s'
  assume "disconnectProcessor throws s = Inr s'"
  then have "opt (sourceRef s') NodeDisconnect @ opt (inputContextRef s') ContextClose @ opt (outputContextRef s') ContextClose @ map BufferSourceStop (sourcesRef s') = opt (sourceRef s) NodeDisconnect @ opt (inputContextRef s) ContextClose @ opt (outputContextRef s) ContextClose @ map BufferSourceStop (sourcesRef s)"
    by (auto dest: disconnectProcessor_returns)
  with tail4 [of throws s']
  show "performs throws (opt (sourceRef s) NodeDisconnect @ opt (inputContextRef s) ContextClose @ opt (outputContextRef s) ContextClose @ map BufferSourceStop (sourcesRef s)) s' (steps [disconnectSource throws, closeInputContext throws, closeOutputContext throws, stopSources throws, \<lambda>s. Inr (setLogs ''Session ended.'' (s\<lparr>liveConnected := False\<rparr>))] s')"
    by simp
qed

lemma tail2: "performs throws (opt (streamRef s) TracksStop @ opt (processorRef s) NodeDisconnect @ opt (sourceRef s) NodeDisconnect @ opt (inputContextRef s) ContextClose @ opt (outputContextRef s) ContextClose @ map BufferSourceStop (sourcesRef s)) s
    (steps [stopStream throws, disconnectProcessor throws, disconnectSource throws, closeInputContext throws, closeOutputContext throws, stopSources throws, \<lambda>s. Inr (setLogs ''Session ended.'' (s\<lparr>liveConnected := False\<rparr>))] s)"
proof (rule performs_cons)
  show "performs throws (opt (streamRef s) TracksStop) s (stopStream throws s)"
    by (rule stopStream_performs)
next
  fix s'
  assume "stopStream throws s = Inr s'"
  then have "opt (processorRef s') NodeDisconnect @ opt (sourceRef s') NodeDisconnect @ opt (inputContextRef s') ContextClose @ opt (outputContextRef s') ContextClose @ map BufferSourceStop (sourcesRef s') = opt (processorRef s) NodeDisconnect @ opt (sourceRef s) NodeDisconnect @ opt (inputContextRef s) ContextClose @ opt (outputContextRef s) ContextClose @ map BufferSourceStop (sourcesRef s)"
    by (auto dest: stopStream_returns)
  with tail3 [of throws s']
  show "performs throws (opt (processorRef s) NodeDisconnect @ opt (sourceRef s) NodeDisconnect @ opt (inputContextRef s) ContextClose @ opt (outputContextRef s) ContextClose @ map BufferSourceStop (sourcesRef s)) s' (steps [disconnectProcessor throws, disconnectSource throws, closeInputContext throws, closeOutputContext throws, stopSources throws, \<lambda>s. Inr (setLogs ''Session ended.'' (s\<lparr>liveConnected := False\<rparr>))] s')"
    by simp
qed

lemma tail1: "performs throws (opt (sessionRef s) SessionClose @ opt (streamRef s) TracksStop @ opt (processorRef s) NodeDisconnect @ opt (sourceRef s) NodeDisconnect @ opt (inputContextRef s) ContextClose @ opt (outputContextRef s) ContextClose @ map BufferSourceStop (sourcesRef s)) s
    (steps [closeSession throws, stopStream throws, disconnectProcessor throws, disconnectSource throws, closeInputContext throws, closeOutputContext throws, stopSources throws, \<lambda>s. Inr (setLogs ''Session ended.'' (s\<lparr>liveConnected := False\<rparr>))] s)"
proof (rule performs_cons)
  show "performs throws (opt (sessionRef s) SessionClose) s (closeSession throws s)"
    by (rule closeSession_performs)
next
  fix s'
  assume "closeSession throws s = Inr s'"
  then have "opt (streamRef s') TracksStop @ opt (processorRef s') NodeDisconnect @ opt (sourceRef s') NodeDisconnect @ opt (inputContextRef s') ContextClose @ opt (outputContextRef s') ContextClose @ map BufferSourceStop (sourcesRef s') = opt (streamRef s) TracksStop @ opt (processorRef s) NodeDisconnect @ opt (sourceRef s) NodeDisconnect @ opt (inputContextRef s) ContextClose @ opt (outputContextRef s) ContextClose @ map BufferSourceStop (sourcesRef s)"
    by (auto dest: closeSession_returns)
  with tail2 [of throws s']
  show "performs throws (opt (streamRef s) TracksStop @ opt (processorRef s) NodeDisconnect @ opt (sourceRef s) NodeDisconnect @ opt (inputContextRef s) ContextClose @ opt (outputContextRef s) ContextClose @ map BufferSourceStop (sourcesRef s)) s' (steps [stopStream throws, disconnectProcessor throws, disconnectSource throws, closeInputContext throws, closeOutputContext throws, stopSources throws, \<lambda>s. Inr (setLogs ''Session ended.'' (s\<lparr>liveConnected := False\<rparr>))] s')"
    by simp
qed

lemma opened_eq:
  "opened = \<lparr> sessionRef = Some 4, inputContextRef = Some 0, outputContextRef = Some 1,
     streamRef = Some 3, processorRef = Some 6, sourceRef = Some 5, nextStartTimeRef = 0,
     sourcesRef = [], liveConnected = True,
     logs = [''Connecting...'', ''Connected! Start speaking.''],
     trace = [NewClient, NewAudioContext 0 16000, NewAudioContext 1 24000, CreateGain 1 2,
              ConnectDestination 2 1, GetUserMedia 3, LiveConnect 4,
              CreateMediaStreamSource 0 3 5, CreateScriptProcessor 0 6, ConnectNode 5 6,
              ConnectDestination 6 0],
     fresh = 7 \<rparr>"
  by (simp add: opened_def final_def onopen_def startLiveSession_def startBody_def
      getGeminiClient_def newInputContext_def newOutputContext_def createOutputNode_def
      getUserMedia_def liveConnect_def call_def never_def setLogs_def initial_def Let_def)



text \<open>
  C3 (as amended). \<open>stopLiveSession\<close> makes its release calls in the order (1) transport
  handle, (2) tracks of the capture stream, (3) processing nodes, (4) input and output
  context, (5) scheduled playback buffers, skipping a handle that is null. No step is
  guarded against failure: the first release call that throws ends the teardown, the calls
  before it have been made and none after it is made. When no call throws, all are made.
\<close>

theorem stopLiveSession_order:
  "performs throws (teardownPlan s) s (stopLiveSession throws s)"
  unfolding stopLiveSession_def teardownPlan_def by (rule tail1)

text \<open>
  C3 as stated fails: when closing the transport handle throws, the teardown ends there.
  The tracks of the capture stream are not stopped and no context is closed.
\<close>

theorem stopLiveSession_order_counterexample:
  "stopLiveSession (throwsOnly (SessionClose 4)) opened = Inl (Thrown (SessionClose 4), opened)
   \<and> streamRef opened = Some 3 \<and> TracksStop 3 \<notin> set (trace opened)
   \<and> inputContextRef opened = Some 0 \<and> ContextClose 0 \<notin> set (trace opened)"
  by (simp add: opened_eq stopLiveSession_def closeSession_def call_def throwsOnly_def)



section \<open>The playback scheduler\<close>

lemma startTimes_append: "startTimes (es @ fs) = startTimes es @ startTimes fs"
  by (induction es rule: startTimes.induct) auto


lemma final_Inr: "final (Inr s) = s"
  by (simp add: final_def)

lemma final_Inl: "final (Inl (e, s)) = s"
  by (simp add: final_def)

lemma chain_mono: "cur \<le> cur' \<Longrightarrow> chain advance cur' xs \<Longrightarrow> chain advance cur xs"
  by (cases xs) auto

lemma chain_lower:
  assumes mono: "\<forall>x d. 0 \<le> d \<longrightarrow> x \<le> advance x d"
  shows "chain advance cur xs \<Longrightarrow> x \<in> set xs \<Longrightarrow> cur \<le> fst x \<and> 0 \<le> snd x"
proof (induction xs arbitrary: cur)
  case Nil
  then show ?case by simp
next
  case (Cons y xs)
  obtain t d where y: "y = (t, d)" by (cases y)
  from Cons.prems(1) y have c: "cur \<le> t" "0 \<le> d" "chain advance (advance t d) xs" by simp_all
  from mono c(2) have m: "t \<le> advance t d" by blast
  from Cons.prems(2) y consider "x = (t, d)" | "x \<in> set xs" by auto
  then show ?case
  proof cases
    case 1
    with c show ?thesis by simp
  next
    case 2
    from Cons.IH [OF c(3) this] have "advance t d \<le> fst x" "0 \<le> snd x" by simp_all
    with c m show ?thesis by linarith
  qed
qed

lemma chain_sorted:
  assumes mono: "\<forall>x d. 0 \<le> d \<longrightarrow> x \<le> advance x d"
  shows "chain advance cur xs \<Longrightarrow> sorted (map fst xs)"
proof (induction xs arbitrary: cur)
  case Nil
  then show ?case by simp
next
  case (Cons y xs)
  obtain t d where y: "y = (t, d)" by (cases y)
  from Cons.prems y have c: "0 \<le> d" "chain advance (advance t d) xs" by simp_all
  from mono c(1) have m: "t \<le> advance t d" by blast
  have "t \<le> fst x" if "x \<in> set xs" for x
    using chain_lower [OF mono c(2) that] m by linarith
  then have "\<forall>u \<in> set (map fst xs). t \<le> u" by auto
  moreover have "sorted (map fst xs)" using c(2) by (rule Cons.IH)
  ultimately show ?case unfolding y by (simp only: list.map fst_conv sorted_simps simp_thms)
qed

lemma chain_no_overlap:
  "chain advance cur xs \<Longrightarrow> Suc i < length xs \<Longrightarrow>
     advance (fst (xs ! i)) (snd (xs ! i)) \<le> fst (xs ! Suc i)"
proof (induction xs arbitrary: cur i)
  case Nil
  then show ?case by simp
next
  case (Cons y xs)
  obtain t d where y: "y = (t, d)" by (cases y)
  from Cons.prems(1) y have c: "chain advance (advance t d) xs" by simp
  show ?case
  proof (cases i)
    case 0
    with Cons.prems(2) obtain t' d' ys where xs: "xs = (t', d') # ys" by (cases xs) auto
    with c have "advance t d \<le> t'" by simp
    with 0 xs y show ?thesis by simp
  next
    case (Suc j)
    with Cons.prems(2) have "Suc j < length xs" by simp
    from Cons.IH [OF c this] Suc show ?thesis by simp
  qed
qed

lemma resume_quiet:
  assumes "\<not> isInterrupted (susMsg p)"
  shows "\<exists>es. trace (final (onmessageResume throws advance decoded out p s)) = trace s @ es
     \<and> ((startTimes es = []
          \<and> nextStartTimeRef (final (onmessageResume throws advance decoded out p s)) = nextStartTimeRef s)
        \<or> (startTimes es = [nextStartTimeRef s]
          \<and> nextStartTimeRef (final (onmessageResume throws advance decoded out p s))
              = advance (nextStartTimeRef s) (seconds decoded p)))"
proof (cases "decoded (susAudio p)")
  case (Inl e)
  then show ?thesis by (simp add: onmessageResume_def final_Inl)
next
  case (Inr n)
  with assms show ?thesis
    by (simp add: onmessageResume_def interruptIf_def call_def final_def seconds_def)
qed

lemma begin_quiet:
  assumes "\<not> isInterrupted msg"
  shows "(case onmessageBegin throws now msg s of
            Inl (e, s') \<Rightarrow> s' = s
          | Inr (None, s') \<Rightarrow> s' = s
          | Inr (Some p, s') \<Rightarrow>
              s' = s\<lparr>nextStartTimeRef := max (nextStartTimeRef s) now\<rparr> \<and> susMsg p = msg)"
  using assms
  by (auto simp: onmessageBegin_def endMessage_def interruptIf_def
      split: sum.splits option.splits prod.splits)


lemma since_append: "trace s' = trace s @ es \<Longrightarrow> since s s' = es"
  by (simp add: since_def)

lemma seconds_nonneg: "0 \<le> seconds decoded p"
  by (simp add: seconds_def split: sum.splits)

lemma dispatch_Completes:
  "k < length ps \<Longrightarrow>
   dispatch throws advance decoded out (Completes k) (s, ps)
     = (final (onmessageResume throws advance decoded out (ps ! k) s), take k ps @ drop (Suc k) ps)"
  by (simp add: final_def split: sum.splits prod.splits)

lemma dispatch_quiet:
  assumes "quietEvent e c"
  shows "\<exists>es. trace (fst (dispatch throws advance decoded out e c)) = trace (fst c) @ es
     \<and> startTimes es = map fst (startedBy throws advance decoded out e c)
     \<and> ((startedBy throws advance decoded out e c = []
          \<and> nextStartTimeRef (fst c) \<le> nextStartTimeRef (fst (dispatch throws advance decoded out e c)))
        \<or> (\<exists>d. 0 \<le> d \<and> startedBy throws advance decoded out e c = [(nextStartTimeRef (fst c), d)]
             \<and> nextStartTimeRef (fst (dispatch throws advance decoded out e c))
                 = advance (nextStartTimeRef (fst c)) d))"
proof -
  obtain s ps where c: "c = (s, ps)" by (cases c)
  show ?thesis
  proof (cases e)
    case (Arrives now msg)
    with assms have q: "\<not> isInterrupted msg" by simp
    from begin_quiet [OF q, where throws = throws and now = now and s = s]
    have "trace (fst (dispatch throws advance decoded out e c)) = trace s
       \<and> nextStartTimeRef s \<le> nextStartTimeRef (fst (dispatch throws advance decoded out e c))"
      unfolding c Arrives by (auto split: sum.splits option.splits prod.splits)
    then show ?thesis by (simp add: c Arrives startedBy_def)
  next
    case (Ended h)
    then show ?thesis by (simp add: c startedBy_def onended_def)
  next
    case (Completes k)
    show ?thesis
    proof (cases "k < length ps")
      case False
      then show ?thesis by (simp add: c Completes startedBy_def since_def)
    next
      case True
      with assms have q: "\<not> isInterrupted (susMsg (ps ! k))" by (simp add: c Completes)
      let ?s1 = "final (onmessageResume throws advance decoded out (ps ! k) s)"
      have d: "fst (dispatch throws advance decoded out e c) = ?s1"
        unfolding c Completes by (simp only: dispatch_Completes [OF True] fst_conv)
      from resume_quiet [OF q, where throws = throws and advance = advance and decoded = decoded and out = out and s = s]
      obtain es where
        es: "trace ?s1 = trace s @ es" and
        alt: "(startTimes es = [] \<and> nextStartTimeRef ?s1 = nextStartTimeRef s)
          \<or> (startTimes es = [nextStartTimeRef s]
              \<and> nextStartTimeRef ?s1 = advance (nextStartTimeRef s) (seconds decoded (ps ! k)))"
        by blast
      have sb: "startedBy throws advance decoded out e c
          = map (\<lambda>t. (t, seconds decoded (ps ! k))) (startTimes es)"
      proof -
        have "since s (fst (dispatch throws advance decoded out (Completes k) (s, ps))) = es"
          using d es unfolding c Completes by (simp add: since_append del: dispatch.simps)
        then show ?thesis
          unfolding startedBy_def Completes c by (simp del: dispatch.simps)
      qed
      have m: "startTimes es = map fst (startedBy throws advance decoded out e c)"
        unfolding sb by (simp add: comp_def)
      from alt show ?thesis
      proof
        assume "startTimes es = [] \<and> nextStartTimeRef ?s1 = nextStartTimeRef s"
        then show ?thesis using es m sb unfolding d by (auto simp: c)
      next
        assume a: "startTimes es = [nextStartTimeRef s]
              \<and> nextStartTimeRef ?s1 = advance (nextStartTimeRef s) (seconds decoded (ps ! k))"
        then have "startedBy throws advance decoded out e c
            = [(nextStartTimeRef s, seconds decoded (ps ! k))]"
          by (simp add: sb)
        with a es m seconds_nonneg [of decoded "ps ! k"] show ?thesis
          unfolding d by (auto simp: c)
      qed
    qed
  qed
qed

lemma quiet_run:
  "quiet throws advance decoded out evs c \<Longrightarrow>
   \<exists>es. trace (fst (run throws advance decoded out evs c)) = trace (fst c) @ es
     \<and> startTimes es = map fst (playlist throws advance decoded out evs c)
     \<and> chain advance (nextStartTimeRef (fst c)) (playlist throws advance decoded out evs c)"
proof (induction evs arbitrary: c)
  case Nil
  then show ?case by simp
next
  case (Cons e evs)
  let ?c1 = "dispatch throws advance decoded out e c"
  from Cons.prems have q: "quietEvent e c" and r: "quiet throws advance decoded out evs ?c1" by simp_all
  from Cons.IH [OF r] obtain es2 where
    t2: "trace (fst (run throws advance decoded out evs ?c1)) = trace (fst ?c1) @ es2" and
    s2: "startTimes es2 = map fst (playlist throws advance decoded out evs ?c1)" and
    c2: "chain advance (nextStartTimeRef (fst ?c1)) (playlist throws advance decoded out evs ?c1)"
    by blast
  from dispatch_quiet [OF q, where throws = throws and advance = advance and decoded = decoded and out = out]
  obtain es1 where
    t1: "trace (fst ?c1) = trace (fst c) @ es1" and
    s1: "startTimes es1 = map fst (startedBy throws advance decoded out e c)" and
    alt: "(startedBy throws advance decoded out e c = []
          \<and> nextStartTimeRef (fst c) \<le> nextStartTimeRef (fst ?c1))
        \<or> (\<exists>d. 0 \<le> d \<and> startedBy throws advance decoded out e c = [(nextStartTimeRef (fst c), d)]
             \<and> nextStartTimeRef (fst ?c1) = advance (nextStartTimeRef (fst c)) d)"
    by blast
  have "trace (fst (run throws advance decoded out (e # evs) c)) = trace (fst c) @ (es1 @ es2)"
    by (simp add: t2 t1)
  moreover have "startTimes (es1 @ es2) = map fst (playlist throws advance decoded out (e # evs) c)"
    by (simp add: startTimes_append s1 s2)
  moreover have "chain advance (nextStartTimeRef (fst c)) (playlist throws advance decoded out (e # evs) c)"
    using alt
  proof
    assume a: "startedBy throws advance decoded out e c = []
          \<and> nextStartTimeRef (fst c) \<le> nextStartTimeRef (fst ?c1)"
    then have "chain advance (nextStartTimeRef (fst c)) (playlist throws advance decoded out evs ?c1)"
      using c2 by (blast intro: chain_mono)
    with a show ?thesis by simp
  next
    assume "\<exists>d. 0 \<le> d \<and> startedBy throws advance decoded out e c = [(nextStartTimeRef (fst c), d)]
             \<and> nextStartTimeRef (fst ?c1) = advance (nextStartTimeRef (fst c)) d"
    with c2 show ?thesis by auto
  qed
  ultimately show ?case by blast
qed

lemma audioChunkD:
  assumes "audioChunk decoded msg = Some n"
  obtains a where "base64Audio msg = Inr (Some a)" "a \<noteq> []" "decoded a = Inr n" "\<not> isInterrupted msg"
  using assms by (auto simp: audioChunk_def split: sum.splits option.splits if_splits)

lemma begin_chunk:
  assumes "base64Audio msg = Inr (Some a)" and "a \<noteq> []" and "outputContextRef s = Some ctx"
  shows "onmessageBegin throws now msg s
     = Inr (Some \<lparr> susCtx = ctx, susAudio = a, susMsg = msg \<rparr>,
            s\<lparr>nextStartTimeRef := max (nextStartTimeRef s) now\<rparr>)"
  using assms by (simp add: onmessageBegin_def)

lemma begin_suspends:
  assumes "onmessageBegin throws now msg s = Inr (Some p, s')"
  shows "s' = s\<lparr>nextStartTimeRef := max (nextStartTimeRef s) now\<rparr> \<and> susMsg p = msg"
  using assms
  by (auto simp: onmessageBegin_def endMessage_def split: sum.splits option.splits if_splits)

lemma resume_returns:
  assumes "\<not> isInterrupted (susMsg p)" and "onmessageResume throws advance decoded out p s = Inr s'"
  shows "trace s' = trace s @ [CreateBufferSource (susCtx p) (fresh s), ConnectNode (fresh s) out,
             BufferSourceStart (fresh s) (nextStartTimeRef s)]
     \<and> nextStartTimeRef s' = advance (nextStartTimeRef s) (seconds decoded p)
     \<and> sourcesRef s' = setAdd (fresh s) (sourcesRef s)"
proof (cases "decoded (susAudio p)")
  case (Inl e)
  with assms(2) show ?thesis by (simp add: onmessageResume_def)
next
  case (Inr n)
  with assms show ?thesis
    by (auto simp: onmessageResume_def interruptIf_def call_def seconds_def split: if_split_asm)
qed

lemma onmessage_chunk_quiet:
  assumes "audioChunk decoded msg = Some n" and "outputContextRef s = Some ctx"
    and "\<forall>e. \<not> throws e"
  shows "onmessage throws advance decoded now out msg s
     = Inr (s\<lparr>nextStartTimeRef := advance (max (nextStartTimeRef s) now) (real n / 24000),
               trace := trace s @ [CreateBufferSource ctx (fresh s), ConnectNode (fresh s) out,
                 BufferSourceStart (fresh s) (max (nextStartTimeRef s) now)],
               sourcesRef := setAdd (fresh s) (sourcesRef s),
               fresh := Suc (fresh s)\<rparr>)"
proof -
  from assms(1) obtain a where a: "base64Audio msg = Inr (Some a)" "a \<noteq> []" "decoded a = Inr n"
    "\<not> isInterrupted msg" by (rule audioChunkD)
  show ?thesis
    using a assms(3)
    by (simp add: onmessage_def begin_chunk [OF a(1,2) assms(2)] onmessageResume_def
        interruptIf_def call_def)
qed

lemma run_pair:
  "run throws advance decoded out (Arrives now msg # Completes 0 # evs) (s, [])
     = run throws advance decoded out evs (final (onmessage throws advance decoded now out msg s), [])"
  by (auto simp: onmessage_def final_def split: sum.splits option.splits prod.splits)

lemma oneByOne_chunks:
  assumes "\<forall>e. \<not> throws e"
  shows "outputContextRef s = Some ctx \<Longrightarrow> \<forall>x \<in> set ms. audioChunk decoded (snd x) \<noteq> None \<Longrightarrow>
     \<exists>es. trace (fst (run throws advance decoded out (oneByOne ms) (s, []))) = trace s @ es
       \<and> startTimes es
           = schedule advance (nextStartTimeRef s) (map (\<lambda>x. (fst x, chunkDuration decoded (snd x))) ms)"
proof (induction ms arbitrary: s)
  case Nil
  then show ?case by (simp add: oneByOne_def)
next
  case (Cons x ms)
  obtain now msg where x: "x = (now, msg)" by (cases x)
  from Cons.prems(2) x obtain n where n: "audioChunk decoded msg = Some n" by auto
  define s1 where "s1 = s\<lparr>nextStartTimeRef := advance (max (nextStartTimeRef s) now) (real n / 24000),
               trace := trace s @ [CreateBufferSource ctx (fresh s), ConnectNode (fresh s) out,
                 BufferSourceStart (fresh s) (max (nextStartTimeRef s) now)],
               sourcesRef := setAdd (fresh s) (sourcesRef s),
               fresh := Suc (fresh s)\<rparr>"
  have step: "onmessage throws advance decoded now out msg s = Inr s1"
    unfolding s1_def using n Cons.prems(1) assms by (rule onmessage_chunk_quiet)
  have ctx1: "outputContextRef s1 = Some ctx" using Cons.prems(1) by (simp add: s1_def)
  have rest: "\<forall>x \<in> set ms. audioChunk decoded (snd x) \<noteq> None" using Cons.prems(2) by simp
  from Cons.IH [OF ctx1 rest] obtain es where
    t: "trace (fst (run throws advance decoded out (oneByOne ms) (s1, []))) = trace s1 @ es" and
    st: "startTimes es
           = schedule advance (nextStartTimeRef s1) (map (\<lambda>x. (fst x, chunkDuration decoded (snd x))) ms)"
    by blast
  have tr1: "trace s1 = trace s @ [CreateBufferSource ctx (fresh s), ConnectNode (fresh s) out,
                 BufferSourceStart (fresh s) (max (nextStartTimeRef s) now)]"
    and nx1: "nextStartTimeRef s1 = advance (max (nextStartTimeRef s) now) (real n / 24000)"
    by (simp_all add: s1_def)
  have r: "run throws advance decoded out (oneByOne (x # ms)) (s, [])
      = run throws advance decoded out (oneByOne ms) (s1, [])"
    unfolding x oneByOne_def using run_pair [where throws = throws and advance = advance and decoded = decoded and out = out and now = now and msg = msg and s = s] step
    by (simp add: final_Inr del: run.simps dispatch.simps)
  have "trace (fst (run throws advance decoded out (oneByOne (x # ms)) (s, [])))
      = trace s @ ([CreateBufferSource ctx (fresh s), ConnectNode (fresh s) out,
                 BufferSourceStart (fresh s) (max (nextStartTimeRef s) now)] @ es)"
    unfolding r t tr1 by simp
  moreover have "startTimes ([CreateBufferSource ctx (fresh s), ConnectNode (fresh s) out,
                 BufferSourceStart (fresh s) (max (nextStartTimeRef s) now)] @ es)
     = schedule advance (nextStartTimeRef s) (map (\<lambda>x. (fst x, chunkDuration decoded (snd x))) (x # ms))"
    using st x n by (simp add: nx1 chunkDuration_def)
  ultimately show ?case by blast
qed

lemmas message_defs = onmessageBegin_def onmessageResume_def endMessage_def interruptIf_def
  interrupt_def base64Audio_def isInterrupted_def call_def setAdd_def setLogs_def seconds_def
  exact_def

lemma begin_opened:
  "onmessageBegin never 1 (audioMsg ''ab'') opened
     = Inr (Some firstChunk, opened\<lparr>nextStartTimeRef := 1\<rparr>)"
  by (simp add: message_defs audioMsg_def firstChunk_def opened_eq)

lemma resume_first:
  "onmessageResume never exact framesOf 2 firstChunk (opened\<lparr>nextStartTimeRef := 1\<rparr>) = Inr playing"
  by (simp add: message_defs audioMsg_def firstChunk_def framesOf_def never_def playing_def opened_eq)

lemma run_overlapping: "run never exact framesOf 2 overlapping (opened, []) = (overlapped, [])"
  by (simp add: overlapping_def overlapped_def message_defs audioMsg_def framesOf_def never_def
      opened_eq)

lemma quiet_overlapping: "quiet never exact framesOf 2 overlapping (opened, [])"
  by (simp add: overlapping_def message_defs audioMsg_def framesOf_def never_def opened_eq)

lemma playlist_overlapping:
  "playlist never exact framesOf 2 overlapping (opened, []) = [(3 / 2, 1), (5 / 2, 1 / 2)]"
  by (simp add: overlapping_def startedBy_def since_def message_defs audioMsg_def framesOf_def
      never_def opened_eq)

lemma playlist_outOfOrder:
  "playlist never exact framesOf 2 outOfOrder (opened, []) = [(3 / 2, 1 / 2), (2, 1)]"
  by (simp add: outOfOrder_def startedBy_def since_def message_defs audioMsg_def framesOf_def
      never_def opened_eq)

text \<open>
  C1 (as amended). The handler of an audio chunk raises the cursor \<open>nextStartTimeRef\<close> to
  the maximum of the cursor and the clock when the chunk arrives, and then awaits the
  decoder. When the decoding completes, and no interruption flag is on the message, the one
  buffer started is started at the value the cursor has then, and the cursor is advanced by
  the duration of the buffer. In every run in which no interruption is handled, however
  arrivals and completions interleave, the buffers taken in the order in which they are
  started follow one another: none starts before its predecessor's start advanced by its
  predecessor's duration; and when the addition does not move the cursor back, the start
  times are non-decreasing and none is before the cursor at the beginning of the run. When
  every chunk is decoded before the next one arrives (output context open, no call
  throwing), the start times are those of the scheduler of the specification.
\<close>

theorem scheduler_ordering:
  "(onmessageBegin throws now msg a = Inr (Some p, a') \<longrightarrow>
      nextStartTimeRef a' = max (nextStartTimeRef a) now)
   \<and> (\<not> isInterrupted (susMsg q) \<and> onmessageResume throws advance decoded out q b = Inr b' \<longrightarrow>
        startTimes (since b b') = [nextStartTimeRef b]
        \<and> nextStartTimeRef b' = advance (nextStartTimeRef b) (seconds decoded q))
   \<and> (quiet throws advance decoded out evs (s, ps) \<longrightarrow>
        map fst (playlist throws advance decoded out evs (s, ps))
          = startTimes (since s (fst (run throws advance decoded out evs (s, ps))))
        \<and> (\<forall>i. Suc i < length (playlist throws advance decoded out evs (s, ps)) \<longrightarrow>
              advance (fst (playlist throws advance decoded out evs (s, ps) ! i))
                   (snd (playlist throws advance decoded out evs (s, ps) ! i))
              \<le> fst (playlist throws advance decoded out evs (s, ps) ! Suc i))
        \<and> (nondecreasing advance \<longrightarrow>
              sorted (map fst (playlist throws advance decoded out evs (s, ps)))
              \<and> (\<forall>x \<in> set (playlist throws advance decoded out evs (s, ps)).
                    nextStartTimeRef s \<le> fst x)))
   \<and> (outputContextRef c \<noteq> None \<and> (\<forall>e. \<not> throws e)
        \<and> (\<forall>x \<in> set ms. audioChunk decoded (snd x) \<noteq> None) \<longrightarrow>
        startTimes (since c (fst (run throws advance decoded out (oneByOne ms) (c, []))))
          = schedule advance (nextStartTimeRef c)
              (map (\<lambda>x. (fst x, chunkDuration decoded (snd x))) ms))"
proof (intro conjI impI)
  assume "onmessageBegin throws now msg a = Inr (Some p, a')"
  from begin_suspends [OF this] show "nextStartTimeRef a' = max (nextStartTimeRef a) now"
    by simp
next
  assume h: "\<not> isInterrupted (susMsg q) \<and> onmessageResume throws advance decoded out q b = Inr b'"
  then have r: "trace b' = trace b @ [CreateBufferSource (susCtx q) (fresh b),
             ConnectNode (fresh b) out, BufferSourceStart (fresh b) (nextStartTimeRef b)]"
    and n: "nextStartTimeRef b' = advance (nextStartTimeRef b) (seconds decoded q)"
    using resume_returns [where p = q and throws = throws and advance = advance and decoded = decoded
        and out = out and s = b and s' = b']
    by simp_all
  show "startTimes (since b b') = [nextStartTimeRef b]"
    by (simp add: since_append [OF r])
  show "nextStartTimeRef b' = advance (nextStartTimeRef b) (seconds decoded q)" by (rule n)
next
  assume q: "quiet throws advance decoded out evs (s, ps)"
  let ?pl = "playlist throws advance decoded out evs (s, ps)"
  from quiet_run [OF q] obtain es where
    t: "trace (fst (run throws advance decoded out evs (s, ps))) = trace s @ es" and
    st: "startTimes es = map fst ?pl" and c: "chain advance (nextStartTimeRef s) ?pl"
    by auto
  show "map fst ?pl = startTimes (since s (fst (run throws advance decoded out evs (s, ps))))"
    by (simp add: since_append [OF t] st)
  show "\<forall>i. Suc i < length ?pl \<longrightarrow> advance (fst (?pl ! i)) (snd (?pl ! i)) \<le> fst (?pl ! Suc i)"
    using chain_no_overlap [OF c] by blast
  assume "nondecreasing advance"
  then have mono: "\<forall>x d. 0 \<le> d \<longrightarrow> x \<le> advance x d" by (simp add: nondecreasing_def)
  show "sorted (map fst ?pl)" using mono c by (rule chain_sorted)
  show "\<forall>x \<in> set ?pl. nextStartTimeRef s \<le> fst x"
    using chain_lower [OF mono c] by blast
next
  assume a: "outputContextRef c \<noteq> None \<and> (\<forall>e. \<not> throws e)
        \<and> (\<forall>x \<in> set ms. audioChunk decoded (snd x) \<noteq> None)"
  then obtain ctx where ctx: "outputContextRef c = Some ctx" by auto
  from a have n: "\<forall>e. \<not> throws e" and m: "\<forall>x \<in> set ms. audioChunk decoded (snd x) \<noteq> None"
    by simp_all
  from oneByOne_chunks [OF n ctx m, where advance = advance and out = out] obtain es where
    t: "trace (fst (run throws advance decoded out (oneByOne ms) (c, []))) = trace c @ es" and
    st: "startTimes es
           = schedule advance (nextStartTimeRef c)
               (map (\<lambda>x. (fst x, chunkDuration decoded (snd x))) ms)"
    by blast
  show "startTimes (since c (fst (run throws advance decoded out (oneByOne ms) (c, []))))
          = schedule advance (nextStartTimeRef c)
              (map (\<lambda>x. (fst x, chunkDuration decoded (snd x))) ms)"
    by (simp add: since_append [OF t] st)
qed

text \<open>
  C1 as stated fails. Two chunks, of one second and of half a second, arrive when the
  clock reads 1 and 1.5, both before either is decoded. Decoded in the order of arrival
  they start at 1.5 and 2.5, where the scheduler of the specification starts them at 1 and
  2: the first starts at the cursor as the second arrival has raised it, not at the maximum
  of the cursor and the clock of its own arrival. Decoded in the opposite order, the chunk
  delivered second (half a second) is started first, at 1.5, and the chunk delivered first
  at 2: in the order of delivery the start times decrease.
\<close>

theorem scheduler_ordering_counterexample:
  "startTimes (since opened (fst (run never exact framesOf 2 overlapping (opened, []))))
     = [3 / 2, 5 / 2]
   \<and> schedule exact (nextStartTimeRef opened) [(1, 1), (3 / 2, 1 / 2)] = [1, 2]
   \<and> playlist never exact framesOf 2 outOfOrder (opened, []) = [(3 / 2, 1 / 2), (2, 1)]"
  by (simp add: run_overlapping playlist_outOfOrder)
     (simp add: overlapped_def since_def opened_eq exact_def)

text \<open>
  The run of the two overlapping chunks, and of the same chunks handled one by one.
\<close>

theorem scheduler_ordering_witness:
  "onmessageBegin never 1 (audioMsg ''ab'') opened
     = Inr (Some firstChunk, opened\<lparr>nextStartTimeRef := 1\<rparr>)
   \<and> nextStartTimeRef (opened\<lparr>nextStartTimeRef := 1\<rparr>) = max (nextStartTimeRef opened) 1
   \<and> \<not> isInterrupted (susMsg firstChunk)
   \<and> onmessageResume never exact framesOf 2 firstChunk (opened\<lparr>nextStartTimeRef := 1\<rparr>)
       = Inr playing
   \<and> startTimes (since (opened\<lparr>nextStartTimeRef := 1\<rparr>) playing) = [1]
   \<and> nextStartTimeRef playing = exact 1 (seconds framesOf firstChunk)
   \<and> quiet never exact framesOf 2 overlapping (opened, [])
   \<and> nondecreasing exact
   \<and> playlist never exact framesOf 2 overlapping (opened, []) = [(3 / 2, 1), (5 / 2, 1 / 2)]
   \<and> startTimes (since opened (fst (run never exact framesOf 2 overlapping (opened, []))))
       = [3 / 2, 5 / 2]
   \<and> sorted (map fst (playlist never exact framesOf 2 overlapping (opened, [])))
   \<and> outputContextRef opened \<noteq> None \<and> (\<forall>e. \<not> never e)
   \<and> audioChunk framesOf (audioMsg ''ab'') = Some 24000
   \<and> audioChunk framesOf (audioMsg ''a'') = Some 12000
   \<and> startTimes (since opened (fst (run never exact framesOf 2
         (oneByOne [(1, audioMsg ''ab''), (3 / 2, audioMsg ''a'')]) (opened, [])))) = [1, 2]"
proof -
  let ?s1 = "opened\<lparr>nextStartTimeRef := 1\<rparr>"
  let ?ms = "[(1 :: real, audioMsg ''ab''), (3 / 2, audioMsg ''a'')]"
  have i: "\<not> isInterrupted (susMsg firstChunk)"
    by (simp add: firstChunk_def audioMsg_def isInterrupted_def)
  have c: "audioChunk framesOf (audioMsg ''ab'') = Some 24000"
    "audioChunk framesOf (audioMsg ''a'') = Some 12000"
    by (simp_all add: audioChunk_def framesOf_def audioMsg_def base64Audio_def isInterrupted_def)
  have o: "outputContextRef opened \<noteq> None" "nextStartTimeRef opened = 0"
    by (simp_all add: opened_eq)
  have n: "\<forall>e. \<not> never e" by (simp add: never_def)
  have e: "nondecreasing exact" by (simp add: nondecreasing_def exact_def)
  have m: "\<forall>x \<in> set ?ms. audioChunk framesOf (snd x) \<noteq> None" using c by simp
  note inst = scheduler_ordering [where throws = never and advance = exact and now = 1
      and msg = "audioMsg ''ab''" and a = opened and p = firstChunk and a' = ?s1
      and q = firstChunk and decoded = framesOf and out = 2 and b = ?s1 and b' = playing
      and s = opened and evs = overlapping and ps = "[]" and c = opened and ms = ?ms]
  have 1: "nextStartTimeRef ?s1 = max (nextStartTimeRef opened) 1"
    using inst begin_opened by blast
  have 2: "startTimes (since ?s1 playing) = [nextStartTimeRef ?s1]
      \<and> nextStartTimeRef playing = exact (nextStartTimeRef ?s1) (seconds framesOf firstChunk)"
    using inst i resume_first by blast
  have 3: "map fst (playlist never exact framesOf 2 overlapping (opened, []))
      = startTimes (since opened (fst (run never exact framesOf 2 overlapping (opened, []))))
    \<and> sorted (map fst (playlist never exact framesOf 2 overlapping (opened, [])))"
    using inst quiet_overlapping e by blast
  have 4: "startTimes (since opened (fst (run never exact framesOf 2 (oneByOne ?ms) (opened, []))))
      = schedule exact (nextStartTimeRef opened)
          (map (\<lambda>x. (fst x, chunkDuration framesOf (snd x))) ?ms)"
    using inst o(1) n m by blast
  from 2 have 5: "startTimes (since ?s1 playing) = [1]"
    "nextStartTimeRef playing = exact 1 (seconds framesOf firstChunk)"
    by simp_all
  from 3 have 6: "startTimes (since opened (fst (run never exact framesOf 2 overlapping (opened, []))))
      = [3 / 2, 5 / 2]"
    by (simp add: playlist_overlapping)
  from 4 have 7: "startTimes (since opened (fst (run never exact framesOf 2 (oneByOne ?ms) (opened, []))))
      = [1, 2]"
    by (simp add: chunkDuration_def c o(2) exact_def)
  from begin_opened 1 i resume_first 5 quiet_overlapping e playlist_overlapping 6 3 o(1) n c 7
  show ?thesis by blast
qed

section \<open>Interruption\<close>

















section \<open>What a message leaves alone\<close>

lemma playbackOnly_iff:
  "playbackOnly s s' \<longleftrightarrow>
     sessionRef s' = sessionRef s \<and> streamRef s' = streamRef s
     \<and> processorRef s' = processorRef s \<and> sourceRef s' = sourceRef s
     \<and> inputContextRef s' = inputContextRef s \<and> outputContextRef s' = outputContextRef s
     \<and> liveConnected s' = liveConnected s
     \<and> (\<exists>es. trace s' = trace s @ es \<and> list_all isPlayback es)"
proof -
  have "(take (length (trace s)) (trace s') = trace s \<and> list_all isPlayback (since s s'))
     \<longleftrightarrow> (\<exists>es. trace s' = trace s @ es \<and> list_all isPlayback es)"
  proof
    assume a: "take (length (trace s)) (trace s') = trace s \<and> list_all isPlayback (since s s')"
    then have "trace s' = trace s @ since s s'"
      unfolding since_def by (metis append_take_drop_id)
    with a show "\<exists>es. trace s' = trace s @ es \<and> list_all isPlayback es" by blast
  next
    assume "\<exists>es. trace s' = trace s @ es \<and> list_all isPlayback es"
    then show "take (length (trace s)) (trace s') = trace s \<and> list_all isPlayback (since s s')"
      by (auto simp: since_def)
  qed
  then show ?thesis unfolding playbackOnly_def by blast
qed

lemma playbackOnly_refl: "playbackOnly s s"
  by (simp add: playbackOnly_iff)

lemma playbackOnly_trans:
  assumes "playbackOnly s s1" and "playbackOnly s1 s2"
  shows "playbackOnly s s2"
proof -
  from assms obtain es fs where "trace s1 = trace s @ es" "list_all isPlayback es"
    "trace s2 = trace s1 @ fs" "list_all isPlayback fs"
    unfolding playbackOnly_iff by blast
  then have "trace s2 = trace s @ (es @ fs) \<and> list_all isPlayback (es @ fs)" by simp
  then have "\<exists>gs. trace s2 = trace s @ gs \<and> list_all isPlayback gs" by blast
  with assms show ?thesis unfolding playbackOnly_iff by simp
qed

lemma playbackOnly_call:
  "isPlayback e \<Longrightarrow> playbackOnly s (final (call throws e s))"
  by (simp add: playbackOnly_iff call_def final_def)

lemma playbackOnly_steps:
  assumes "\<And>f s. f \<in> set fs \<Longrightarrow> playbackOnly s (final (f s))"
  shows "playbackOnly s (final (steps fs s))"
  using assms
proof (induction fs arbitrary: s)
  case Nil
  show ?case by (simp add: final_def playbackOnly_refl)
next
  case (Cons f fs)
  have f: "playbackOnly s (final (f s))" by (rule Cons.prems) simp
  show ?case
  proof (cases "f s")
    case (Inl a)
    with f show ?thesis by (simp add: final_def)
  next
    case (Inr s1)
    with f have 1: "playbackOnly s s1" by (simp add: final_def)
    have 2: "playbackOnly s1 (final (steps fs s1))"
      by (rule Cons.IH) (rule Cons.prems, simp)
    from playbackOnly_trans [OF 1 2] Inr show ?thesis by simp
  qed
qed

lemma playbackOnly_interrupt: "playbackOnly s (final (interrupt throws s))"
  unfolding interrupt_def
  by (rule playbackOnly_steps)
     (auto simp: playbackOnly_call, simp_all add: playbackOnly_iff final_def setLogs_def)


lemma playbackOnly_interruptIf: "playbackOnly s (final (interruptIf throws msg s))"
  by (simp add: interruptIf_def playbackOnly_interrupt final_Inr playbackOnly_refl)

lemma playbackOnly_begin: "playbackOnly s (afterBegin (onmessageBegin throws now msg s))"
proof (cases "base64Audio msg")
  case (Inl e)
  then show ?thesis by (simp add: onmessageBegin_def afterBegin_def playbackOnly_refl)
next
  case (Inr base64)
  have e: "playbackOnly s (afterBegin (endMessage throws msg s))"
    using playbackOnly_interruptIf [of s throws msg]
    by (auto simp: endMessage_def afterBegin_def final_def split: sum.splits prod.splits)
  have r: "playbackOnly s (s\<lparr>nextStartTimeRef := max (nextStartTimeRef s) now\<rparr>)"
    by (simp add: playbackOnly_iff)
  from Inr e r show ?thesis
    by (auto simp: onmessageBegin_def afterBegin_def split: option.splits)
qed

lemma playbackOnly_resume:
  "playbackOnly s (final (onmessageResume throws advance decoded out p s))"
proof (cases "decoded (susAudio p)")
  case (Inl e)
  then show ?thesis by (simp add: onmessageResume_def final_Inl playbackOnly_refl)
next
  case (Inr n)
  let ?fs = "[call throws (CreateBufferSource (susCtx p) (fresh s)),
              call throws (ConnectNode (fresh s) out),
              call throws (BufferSourceStart (fresh s) (nextStartTimeRef s)),
              \<lambda>s. Inr (s\<lparr>nextStartTimeRef := advance (nextStartTimeRef s) (real n / 24000),
                         sourcesRef := setAdd (fresh s) (sourcesRef s),
                         fresh := Suc (fresh s)\<rparr>),
              interruptIf throws (susMsg p)]"
  have "playbackOnly s (final (steps ?fs s))"
  proof (rule playbackOnly_steps)
    fix f s'
    assume "f \<in> set ?fs"
    then have "f = call throws (CreateBufferSource (susCtx p) (fresh s))
       \<or> f = call throws (ConnectNode (fresh s) out)
       \<or> f = call throws (BufferSourceStart (fresh s) (nextStartTimeRef s))
       \<or> f = (\<lambda>s. Inr (s\<lparr>nextStartTimeRef := advance (nextStartTimeRef s) (real n / 24000),
                         sourcesRef := setAdd (fresh s) (sourcesRef s),
                         fresh := Suc (fresh s)\<rparr>))
       \<or> f = interruptIf throws (susMsg p)"
      by simp
    then show "playbackOnly s' (final (f s'))"
      by (elim disjE)
         (simp_all add: playbackOnly_call playbackOnly_interruptIf,
          simp add: final_Inr playbackOnly_iff)
  qed
  with Inr show ?thesis by (simp add: onmessageResume_def del: steps.simps)
qed

text \<open>
  C9. Handling a message, with or without the interruption flag, and whether the handler
  returns or throws, leaves the session handle, the capture stream, the processing nodes,
  the input and the output context and \<open>liveConnected\<close> as they were, and makes only calls
  of the playback path: nothing is closed, stopped or disconnected but buffer sources. (The
  handler of an interruption also appends a line to the log.) This holds of the handler
  taken as a whole, of its part before the \<open>await\<close> and of its part after it, in whatever
  state that part is resumed.
\<close>

theorem interruption_frame:
  "playbackOnly s (final (onmessage throws advance decoded now out msg s))
   \<and> playbackOnly s (afterBegin (onmessageBegin throws now msg s))
   \<and> playbackOnly s (final (onmessageResume throws advance decoded out p s))"
proof (intro conjI)
  show b: "playbackOnly s (afterBegin (onmessageBegin throws now msg s))"
    by (rule playbackOnly_begin)
  show "playbackOnly s (final (onmessageResume throws advance decoded out p s))"
    by (rule playbackOnly_resume)
  show "playbackOnly s (final (onmessage throws advance decoded now out msg s))"
  proof (cases "onmessageBegin throws now msg s")
    case (Inl x)
    with b show ?thesis
      by (cases x) (simp add: onmessage_def afterBegin_def final_def)
  next
    case (Inr y)
    obtain q s1 where y: "y = (q, s1)" by (cases y)
    from b Inr y have 1: "playbackOnly s s1" by (simp add: afterBegin_def)
    show ?thesis
    proof (cases q)
      case None
      with Inr y 1 show ?thesis by (simp add: onmessage_def final_Inr)
    next
      case (Some q')
      have "playbackOnly s1 (final (onmessageResume throws advance decoded out q' s1))"
        by (rule playbackOnly_resume)
      with 1 have "playbackOnly s (final (onmessageResume throws advance decoded out q' s1))"
        by (rule playbackOnly_trans)
      with Inr y Some show ?thesis by (simp add: onmessage_def)
    qed
  qed
qed

text \<open>
  C10. A message whose model turn has no \<open>parts\<close> carries neither audio nor the
  interruption flag; the handler throws a TypeError on it, before its \<open>await\<close> (leaving the
  state as it was), where C10 has it ignored without error.
\<close>

theorem missing_parts_throws:
  "base64Audio turnWithoutParts = Inl TypeError \<and> \<not> isInterrupted turnWithoutParts
   \<and> onmessage throws advance decoded now out turnWithoutParts s = Inl (TypeError, s)
   \<and> onmessageBegin throws now turnWithoutParts s = Inl (TypeError, s)"
  by (simp add: onmessage_def onmessageBegin_def base64Audio_def isInterrupted_def
      turnWithoutParts_def)

section \<open>Starting a session\<close>

lemmas start_defs = startLiveSession_def startBody_def noMessage_def
      getGeminiClient_def newInputContext_def newOutputContext_def createOutputNode_def
      getUserMedia_def liveConnect_def call_def setLogs_def

text \<open>
  C4. A start in which the microphone is refused: the start is reported by an alert and
  \<open>liveConnected\<close> stays false, but the two audio contexts created before the refusal
  are still referenced and have not been closed. A start in which the transport rejects
  the connection leaves, in addition, the capture stream with its tracks running.
\<close>

theorem failed_start_leaks:
  "startLiveSession (throwsOnly (GetUserMedia 3)) never True initial = Inr micDenied
   \<and> inputContextRef micDenied = Some 0 \<and> outputContextRef micDenied = Some 1
   \<and> ContextClose 0 \<notin> set (trace micDenied) \<and> ContextClose 1 \<notin> set (trace micDenied)
   \<and> startLiveSession (throwsOnly (LiveConnect 4)) never True initial = Inr connectRejected
   \<and> streamRef connectRejected = Some 3 \<and> TracksStop 3 \<notin> set (trace connectRejected)
   \<and> inputContextRef connectRejected = Some 0 \<and> ContextClose 0 \<notin> set (trace connectRejected)"
  by (simp add: start_defs throwsOnly_def never_def micDenied_def connectRejected_def initial_def)

lemma start_initial: "startLiveSession never never True initial = Inr started"
  by (simp add: start_defs never_def initial_def started_def)

lemma start_started: "startLiveSession never never True started = Inr startedTwice"
  by (simp add: start_defs never_def initial_def started_def startedTwice_def)

lemma onclose_opened: "onclose opened = remoteClosed"
  by (simp add: onclose_def setLogs_def remoteClosed_def opened_eq)

lemma start_remoteClosed: "startLiveSession never never True remoteClosed = Inr restarted"
  by (simp add: start_defs never_def restarted_def remoteClosed_def opened_eq)

lemma start_opened:
  "startLiveSession never never True opened
     = Inr (restarted\<lparr>liveConnected := True, logs := logs opened @ [''Connecting...'']\<rparr>)"
  by (simp add: start_defs never_def restarted_def remoteClosed_def opened_eq)

text \<open>
  C8. \<open>startLiveSession\<close> contains no teardown, and the rendering of the controls does
  not keep it from running while a session exists. Until the transport has reported open
  the control is still \<open>Start Conversation\<close>: a second click connects a second session,
  and the handle, the capture stream and the contexts of the first are overwritten without
  having been closed or stopped. After the remote end has closed the session the control
  is \<open>Start Conversation\<close> again, with the refs of the closed session still set: the
  click starts a new session and releases none of them. And \<open>startLiveSession\<close> run on
  an open session closes nothing of it.
\<close>

theorem start_without_teardown:
  "click never never True initial = Inr started
   \<and> liveControl started = StartConversation
   \<and> click never never True started = Inr startedTwice
   \<and> sessionRef started = Some 4 \<and> streamRef started = Some 3
   \<and> inputContextRef started = Some 0 \<and> outputContextRef started = Some 1
   \<and> sessionRef startedTwice = Some 9
   \<and> SessionClose 4 \<notin> set (trace startedTwice) \<and> TracksStop 3 \<notin> set (trace startedTwice)
   \<and> ContextClose 0 \<notin> set (trace startedTwice) \<and> ContextClose 1 \<notin> set (trace startedTwice)
   \<and> onclose opened = remoteClosed
   \<and> liveControl remoteClosed = StartConversation
   \<and> click never never True remoteClosed = Inr restarted
   \<and> streamRef remoteClosed = Some 3 \<and> inputContextRef remoteClosed = Some 0
   \<and> streamRef restarted = Some 10 \<and> inputContextRef restarted = Some 7
   \<and> TracksStop 3 \<notin> set (trace restarted) \<and> ContextClose 0 \<notin> set (trace restarted)
   \<and> liveConnected opened \<and> sessionRef opened = Some 4
   \<and> startLiveSession never never True opened
       = Inr (restarted\<lparr>liveConnected := True, logs := logs opened @ [''Connecting...'']\<rparr>)
   \<and> SessionClose 4 \<notin> set (trace restarted)"
proof -
  have l: "liveControl initial = StartConversation" "liveControl started = StartConversation"
    "liveControl remoteClosed = StartConversation"
    by (simp_all add: liveControl_def initial_def started_def remoteClosed_def)
  then have c: "click never never True initial = Inr started"
    "click never never True started = Inr startedTwice"
    "click never never True remoteClosed = Inr restarted"
    by (simp_all add: click_def start_initial start_started start_remoteClosed)
  have v: "sessionRef started = Some 4 \<and> streamRef started = Some 3
   \<and> inputContextRef started = Some 0 \<and> outputContextRef started = Some 1
   \<and> sessionRef startedTwice = Some 9
   \<and> SessionClose 4 \<notin> set (trace startedTwice) \<and> TracksStop 3 \<notin> set (trace startedTwice)
   \<and> ContextClose 0 \<notin> set (trace startedTwice) \<and> ContextClose 1 \<notin> set (trace startedTwice)"
    by (simp add: startedTwice_def started_def initial_def)
  have w: "streamRef remoteClosed = Some 3 \<and> inputContextRef remoteClosed = Some 0
   \<and> streamRef restarted = Some 10 \<and> inputContextRef restarted = Some 7
   \<and> TracksStop 3 \<notin> set (trace restarted) \<and> ContextClose 0 \<notin> set (trace restarted)
   \<and> liveConnected opened \<and> sessionRef opened = Some 4
   \<and> SessionClose 4 \<notin> set (trace restarted)"
    by (simp add: restarted_def remoteClosed_def opened_eq)
  from l c v w onclose_opened start_opened show ?thesis by blast
qed

section \<open>PCM round trip\<close>

lemma int16Array_length: "length (int16Array bs) = length bs div 2"
  by (induction bs rule: int16Array.induct) auto

lemma cat_bytes: "word_cat (ucast (drop_bit 8 w) :: byte) (ucast w :: byte) = (w :: int16)"
  by (rule bit_word_eqI) (auto simp: bit_simps)

lemma int16Array_createPcmBlob: "int16Array (createPcmBlob xs) = map encodeSample xs"
  by (induction xs) (simp_all add: createPcmBlob_def int16Bytes_def cat_bytes)

lemma sint_encode:
  assumes "- 32768 \<le> k" and "k \<le> 32767"
  shows "sint (word_of_int k :: int16) = k"
  using assms by (simp add: sint_sbintrunc' signed_take_bit_int_eq_self)

lemma encode_in_range:
  assumes "- 1 \<le> x" and "x \<le> 1"
  shows "encodeSample x = word_of_int (round (x * 32767))"
    and "- 32768 \<le> round (x * 32767)" and "round (x * 32767) \<le> 32767"
proof -
  have "- 32767 \<le> x * 32767" "x * 32767 \<le> 32767" using assms by simp_all
  then have "round (- 32767 :: real) \<le> round (x * 32767)" "round (x * 32767) \<le> round (32767 :: real)"
    by (simp_all only: round_mono)
  then have r: "- 32767 \<le> round (x * 32767)" "round (x * 32767) \<le> 32767" by simp_all
  then show "- 32768 \<le> round (x * 32767)" "round (x * 32767) \<le> 32767" by simp_all
  from r assms show "encodeSample x = word_of_int (round (x * 32767))"
    by (simp add: encodeSample_def)
qed

lemma roundtrip_sample:
  assumes "- 1 \<le> x" and "x \<le> 1"
  shows "\<bar>decodeSample (encodeSample x) - x\<bar> \<le> 3 / 65536"
proof -
  let ?k = "round (x * 32767)"
  have d: "decodeSample (encodeSample x) = real_of_int ?k / 32768"
    using encode_in_range [OF assms] by (simp add: decodeSample_def sint_encode)
  have e: "\<bar>real_of_int ?k - x * 32767\<bar> \<le> 1 / 2" by (rule of_int_round_abs_le)
  have x: "\<bar>x\<bar> \<le> 1" using assms by simp
  define D where "D = real_of_int ?k / 32768 - x"
  have eq: "32768 * D = (real_of_int ?k - x * 32767) - x"
    by (simp add: D_def algebra_simps)
  from e x eq have "- (3 / 2) \<le> 32768 * D" and "32768 * D \<le> 3 / 2" by linarith+
  then have "\<bar>D\<bar> \<le> 3 / 65536" by linarith
  then show ?thesis unfolding d D_def .
qed

lemma encode_example: "encodeSample (131069 / 131072) = 32766"
  by (simp add: encodeSample_def round_def)

lemma decode_example: "decodeSample 32766 = 16383 / 16384"
  by (simp add: decodeSample_def)

text \<open>
  C6 (as amended). For samples in \<open>[-1, 1]\<close>, decoding the encoded payload gives a buffer
  of the same length, each sample within \<open>3 / 65536\<close> (one and a half times
  \<open>1 / 32768\<close>) of the original: the rounding contributes at most half a step, and the
  scaling by 32767 on the way out against 32768 on the way back up to a whole step.
\<close>

theorem pcm_roundtrip:
  assumes "\<forall>x \<in> set xs. - 1 \<le> x \<and> x \<le> 1"
  shows "length (channelData (decodeAudioData (createPcmBlob xs) rate channels)) = length xs
     \<and> (\<forall>i < length xs.
          \<bar>channelData (decodeAudioData (createPcmBlob xs) rate channels) ! i - xs ! i\<bar>
            \<le> 3 / 65536)"
proof -
  have c: "channelData (decodeAudioData (createPcmBlob xs) rate channels)
     = map (\<lambda>x. decodeSample (encodeSample x)) xs"
    by (simp add: decodeAudioData_def int16Array_createPcmBlob)
  have "\<bar>map (\<lambda>x. decodeSample (encodeSample x)) xs ! i - xs ! i\<bar> \<le> 3 / 65536"
    if "i < length xs" for i
  proof -
    from that assms have "- 1 \<le> xs ! i" "xs ! i \<le> 1" by simp_all
    then have "\<bar>decodeSample (encodeSample (xs ! i)) - xs ! i\<bar> \<le> 3 / 65536"
      by (rule roundtrip_sample)
    with that show ?thesis by simp
  qed
  then show ?thesis unfolding c by simp
qed

theorem pcm_roundtrip_witness:
  "- 1 \<le> (1 / 2 :: real) \<and> (1 / 2 :: real) \<le> 1 \<and> - 1 \<le> (- 1 :: real) \<and> (- 1 :: real) \<le> 1
   \<and> length (channelData (decodeAudioData (createPcmBlob [1 / 2, - 1]) 24000 1)) = 2
   \<and> \<bar>channelData (decodeAudioData (createPcmBlob [1 / 2, - 1]) 24000 1) ! 0 - 1 / 2\<bar> \<le> 3 / 65536
   \<and> \<bar>channelData (decodeAudioData (createPcmBlob [1 / 2, - 1]) 24000 1) ! 1 - (- 1)\<bar> \<le> 3 / 65536"
proof -
  have h: "\<forall>x \<in> set [1 / 2, - 1 :: real]. - 1 \<le> x \<and> x \<le> 1" by simp
  let ?d = "channelData (decodeAudioData (createPcmBlob [1 / 2, - 1]) 24000 1)"
  from pcm_roundtrip [OF h, of 24000 1]
  have l: "length ?d = 2" and b: "\<forall>i < 2. \<bar>?d ! i - [1 / 2, - 1] ! i\<bar> \<le> 3 / 65536"
    by simp_all
  have "\<bar>?d ! 0 - 1 / 2\<bar> \<le> 3 / 65536"
    using b [THEN spec, of 0] by simp
  moreover have "\<bar>?d ! 1 - (- 1)\<bar> \<le> 3 / 65536"
    using b [THEN spec, of 1] by simp
  ultimately show ?thesis using l by simp
qed

text \<open>
  C6 as stated fails: the sample \<open>131069 / 131072\<close> (that is \<open>1 - 3 / 2 ^ 17\<close>, a value
  that a 32-bit float holds exactly) is encoded as 32766 and decoded as \<open>16383 / 16384\<close>,
  which is \<open>5 / 131072\<close> away from it, more than \<open>1 / 32768\<close>.
\<close>

theorem pcm_roundtrip_counterexample:
  "- 1 \<le> (131069 / 131072 :: real) \<and> (131069 / 131072 :: real) \<le> 1
   \<and> channelData (decodeAudioData (createPcmBlob [131069 / 131072]) 24000 1) = [16383 / 16384]
   \<and> \<bar>16383 / 16384 - 131069 / 131072 :: real\<bar> = 5 / 131072
   \<and> (5 / 131072 :: real) > 1 / 32768"
  using int16Array_createPcmBlob [of "[131069 / 131072]"]
  by (simp add: decodeAudioData_def encode_example decode_example)


lemma int16Array_nth:
  "i < length bs div 2 \<Longrightarrow> int16Array bs ! i = word_cat (bs ! (2 * i + 1)) (bs ! (2 * i))"
proof (induction bs arbitrary: i rule: int16Array.induct)
  case (1 lo hi bs)
  show ?case
  proof (cases i)
    case 0
    then show ?thesis by simp
  next
    case (Suc j)
    with "1.prems" have "j < length bs div 2" by simp
    from "1.IH" [OF this] Suc show ?thesis by simp
  qed
qed simp_all

lemma int16Array_butlast: "odd (length bs) \<Longrightarrow> int16Array (butlast bs) = int16Array bs"
proof (induction bs rule: int16Array.induct)
  case (1 lo hi bs)
  then have "odd (length bs)" by simp
  then have "bs \<noteq> []" by auto
  with 1 show ?case by simp
qed simp_all

text \<open>
  C7. The decoder has a value for every payload (it is a terminating recursion over the
  bytes, with no failing case). The empty payload gives the empty buffer. A payload gives
  half as many samples as it has bytes, rounded down, and sample \<open>i\<close> is the signed 16-bit
  integer with low byte \<open>payload ! (2 * i)\<close> and high byte \<open>payload ! (2 * i + 1)\<close>,
  divided by 32768. A payload of \<open>2 * n + 1\<close> bytes gives exactly \<open>n\<close> samples, and the
  same buffer as the payload without its last byte. The buffer has the rate and the channel
  count asked for. In the call that the handler awaits, whenever the base64 decoder gives
  a payload the call gives a buffer, of half as many frames as the payload has bytes: a
  failure of that call is a failure of the base64 decoder. And with such a payload, of
  whatever length, the part of the handler after the \<open>await\<close> does not throw when none of
  its calls throws: it starts one buffer, at the cursor, and advances the cursor by the
  duration of the frames.
\<close>

theorem decoder_total:
  "channelData (decodeAudioData [] rate channels) = []
   \<and> length (channelData (decodeAudioData payload rate channels)) = length payload div 2
   \<and> (\<forall>i < length payload div 2.
         channelData (decodeAudioData payload rate channels) ! i
           = real_of_int (sint (word_cat (payload ! (2 * i + 1)) (payload ! (2 * i)) :: int16))
               / 32768)
   \<and> (length payload = 2 * n + 1 \<longrightarrow>
         length (channelData (decodeAudioData payload rate channels)) = n
         \<and> decodeAudioData payload rate channels = decodeAudioData (butlast payload) rate channels)
   \<and> sampleRate (decodeAudioData payload rate channels) = rate
   \<and> numberOfChannels (decodeAudioData payload rate channels) = channels
   \<and> (decode a = Inr payload \<longrightarrow> decodedBy decode a = Inr (length payload div 2))
   \<and> (decode (susAudio p) = Inr payload \<and> (\<forall>e. \<not> throws e) \<and> \<not> isInterrupted (susMsg p) \<longrightarrow>
        onmessageResume throws advance (decodedBy decode) out p s
          = Inr (s\<lparr>nextStartTimeRef :=
                      advance (nextStartTimeRef s) (real (length payload div 2) / 24000),
                    trace := trace s @ [CreateBufferSource (susCtx p) (fresh s),
                      ConnectNode (fresh s) out, BufferSourceStart (fresh s) (nextStartTimeRef s)],
                    sourcesRef := setAdd (fresh s) (sourcesRef s),
                    fresh := Suc (fresh s)\<rparr>))"
proof (intro conjI impI allI)
  assume "decode (susAudio p) = Inr payload \<and> (\<forall>e. \<not> throws e) \<and> \<not> isInterrupted (susMsg p)"
  then show "onmessageResume throws advance (decodedBy decode) out p s
          = Inr (s\<lparr>nextStartTimeRef :=
                      advance (nextStartTimeRef s) (real (length payload div 2) / 24000),
                    trace := trace s @ [CreateBufferSource (susCtx p) (fresh s),
                      ConnectNode (fresh s) out, BufferSourceStart (fresh s) (nextStartTimeRef s)],
                    sourcesRef := setAdd (fresh s) (sourcesRef s),
                    fresh := Suc (fresh s)\<rparr>)"
    by (simp add: onmessageResume_def interruptIf_def call_def decodedBy_def decodeAudioData_def
        int16Array_length)
next
  show "channelData (decodeAudioData [] rate channels) = []"
    by (simp add: decodeAudioData_def)
  show l: "length (channelData (decodeAudioData payload rate channels)) = length payload div 2"
    by (simp add: decodeAudioData_def int16Array_length)
  show "channelData (decodeAudioData payload rate channels) ! i
           = real_of_int (sint (word_cat (payload ! (2 * i + 1)) (payload ! (2 * i)) :: int16))
               / 32768"
    if "i < length payload div 2" for i
    using that
    by (simp add: decodeAudioData_def int16Array_length int16Array_nth decodeSample_def)
  show "sampleRate (decodeAudioData payload rate channels) = rate"
    "numberOfChannels (decodeAudioData payload rate channels) = channels"
    by (simp_all add: decodeAudioData_def)
  show "decodedBy decode a = Inr (length payload div 2)" if "decode a = Inr payload"
    using that by (simp add: decodedBy_def decodeAudioData_def int16Array_length)
  assume o: "length payload = 2 * n + 1"
  then show "length (channelData (decodeAudioData payload rate channels)) = n"
    by (simp add: l)
  from o have "odd (length payload)" by simp
  then show "decodeAudioData payload rate channels = decodeAudioData (butlast payload) rate channels"
    by (simp add: decodeAudioData_def int16Array_butlast)
qed

text \<open>
  The payload of the three bytes 1, 2, 3: one sample, \<open>513 / 32768\<close>, the third byte
  dropped; the handler resumed with it on the opened session starts a buffer of one frame.
\<close>

theorem decoder_total_witness:
  "length [1, 2, 3 :: byte] = 2 * 1 + 1
   \<and> length (channelData (decodeAudioData [1, 2, 3] 24000 1)) = 1
   \<and> decodeAudioData [1, 2, 3] 24000 1 = decodeAudioData [1, 2] 24000 1
   \<and> channelData (decodeAudioData [1, 2, 3] 24000 1) = [513 / 32768]
   \<and> channelData (decodeAudioData [1, 2, 3] 24000 1) ! 0
       = real_of_int (sint (word_cat (2 :: byte) (1 :: byte) :: int16)) / 32768
   \<and> threeBytes ''AQID'' = Inr [1, 2, 3]
   \<and> decodedBy threeBytes ''AQID'' = Inr 1
   \<and> threeBytes (susAudio oddChunk) = Inr [1, 2, 3]
   \<and> (\<forall>e. \<not> never e) \<and> \<not> isInterrupted (susMsg oddChunk)
   \<and> onmessageResume never exact (decodedBy threeBytes) 2 oddChunk opened
       = Inr (opened\<lparr>nextStartTimeRef := 1 / 24000,
                trace := trace opened @ [CreateBufferSource 1 7, ConnectNode 7 2,
                  BufferSourceStart 7 0],
                sourcesRef := [7], fresh := 8\<rparr>)"
proof -
  note inst = decoder_total [where payload = "[1, 2, 3]" and rate = 24000 and channels = 1
      and n = 1 and decode = threeBytes and a = "''AQID''" and p = oddChunk and throws = never
      and advance = exact and out = 2 and s = opened]
  have t: "threeBytes ''AQID'' = Inr [1, 2, 3]" by (simp add: threeBytes_def)
  have h: "length [1, 2, 3 :: byte] = 2 * 1 + 1" by simp
  have i: "(0 :: nat) < length [1, 2, 3 :: byte] div 2" by simp
  from inst h have 1: "length (channelData (decodeAudioData [1, 2, 3] 24000 1)) = 1"
    and 2: "decodeAudioData [1, 2, 3] 24000 1 = decodeAudioData (butlast [1, 2, 3]) 24000 1"
    by blast+
  from inst i have "channelData (decodeAudioData [1, 2, 3] 24000 1) ! 0
       = real_of_int (sint (word_cat ([1, 2, 3 :: byte] ! (2 * 0 + 1)) ([1, 2, 3 :: byte] ! (2 * 0)) :: int16)) / 32768"
    by blast
  then have 3: "channelData (decodeAudioData [1, 2, 3] 24000 1) ! 0
       = real_of_int (sint (word_cat (2 :: byte) (1 :: byte) :: int16)) / 32768"
    by simp
  from inst t have "decodedBy threeBytes ''AQID'' = Inr (length [1, 2, 3 :: byte] div 2)"
    by blast
  then have 4: "decodedBy threeBytes ''AQID'' = Inr 1" by simp
  have 5: "channelData (decodeAudioData [1, 2, 3] 24000 1) = [513 / 32768]"
    by (simp add: decodeAudioData_def decodeSample_def word_cat_eq)
  from 2 have 2: "decodeAudioData [1, 2, 3] 24000 1 = decodeAudioData [1, 2] 24000 1" by simp
  have u: "threeBytes (susAudio oddChunk) = Inr [1, 2, 3]" by (simp add: threeBytes_def)
  have n: "\<forall>e. \<not> never e" by (simp add: never_def)
  have q: "\<not> isInterrupted (susMsg oddChunk)"
    by (simp add: oddChunk_def audioMsg_def isInterrupted_def)
  from inst u n q have "onmessageResume never exact (decodedBy threeBytes) 2 oddChunk opened
          = Inr (opened\<lparr>nextStartTimeRef :=
                      exact (nextStartTimeRef opened) (real (length [1, 2, 3 :: byte] div 2) / 24000),
                    trace := trace opened @ [CreateBufferSource (susCtx oddChunk) (fresh opened),
                      ConnectNode (fresh opened) 2,
                      BufferSourceStart (fresh opened) (nextStartTimeRef opened)],
                    sourcesRef := setAdd (fresh opened) (sourcesRef opened),
                    fresh := Suc (fresh opened)\<rparr>)"
    by blast
  then have 6: "onmessageResume never exact (decodedBy threeBytes) 2 oddChunk opened
       = Inr (opened\<lparr>nextStartTimeRef := 1 / 24000,
                trace := trace opened @ [CreateBufferSource 1 7, ConnectNode 7 2,
                  BufferSourceStart 7 0],
                sourcesRef := [7], fresh := 8\<rparr>)"
    by (simp add: opened_eq oddChunk_def exact_def setAdd_def)
  from h 1 2 3 4 5 t u n q 6 show ?thesis by blast
qed

end
